theory Spec2Isabelle
  imports Main "HOL-Library.Multiset" "HOL-Library.Sublist"
begin

section \<open>Shared vocabulary\<close>

text \<open>
  Addresses and 32-byte hashes are the hex strings of the source (\<open>0x...\<close>), compared with
  \<open>===\<close>, that is as strings. A \<open>bigint\<close> is an unbounded integer: nonces and the values
  the EntryPoint returns are unsigned and are naturals here, fees and gas amounts are
  \<open>int\<close>. A \<open>number\<close> holding a length, a chain id or a millisecond timestamp is an
  \<open>int\<close>.

  Every exception of the source is a value of \<open>error\<close>; a function that can throw returns
  \<open>error + 'a\<close>, with \<open>Inl\<close> the exception. Logging, metrics and Sentry reports are left
  out: no claim is about them.
\<close>

type_synonym Address = string
type_synonym HexData32 = string

datatype error =
    ExternalError string \<comment> \<open>an awaited call of the RPC client or of \<open>fetch\<close> rejected\<close>
  | TypeError \<comment> \<open>a property of \<open>undefined\<close> was read, or a bigint was mixed with \<open>undefined\<close>\<close>
  | RangeError \<comment> \<open>bigint division by zero\<close>
  | MaxFeePerGasTooLow int int
    \<comment> \<open>\<open>RpcError\<close>: "maxFeePerGas must be at least (1st) (current maxFeePerGas: (2nd))"\<close>
  | MaxPriorityFeePerGasTooLow int int
    \<comment> \<open>\<open>RpcError\<close>: "maxPriorityFeePerGas must be at least (1st) (current ...: (2nd))"\<close>
  | NoMoreWallets \<comment> \<open>\<open>Error("no more wallets")\<close>\<close>

subsection \<open>The RPC client\<close>

text \<open>One entry of a multicall and one entry of its answer.\<close>

record contractCall =
  address :: Address
  functionName :: string
  args :: "Address \<times> nat"

datatype multicallResult =
    Success nat \<comment> \<open>\<open>{ status: "success", result }\<close>\<close>
  | Failure string \<comment> \<open>\<open>{ status: "failure", error }\<close>\<close>

record GasPriceParameters =
  maxFeePerGas :: int
  maxPriorityFeePerGas :: int

text \<open>What \<open>estimateFeesPerGas\<close> resolves to: either field may be \<open>undefined\<close>.\<close>

record FeesPerGas =
  feesMaxFeePerGas :: "int option"
  feesMaxPriorityFeePerGas :: "int option"

text \<open>The fee history: \<open>reward\<close> may be missing; otherwise one row of percentile rewards per
  block.\<close>

record FeeHistory =
  reward :: "int list list option"

text \<open>The latest block: \<open>baseFeePerGas\<close> may be \<open>null\<close>.\<close>

record Block =
  baseFeePerGas :: "int option"
  gasUsed :: int
  gasLimit :: int

text \<open>
  The viem client is external. \<open>multicall\<close> either rejects as a whole or resolves to an
  array of per-call results. Each of the other calls is made at most once in a refresh, so
  its outcome is a field: \<open>Inl\<close> when the awaited call rejects. \<open>estimateFeesPerGasLegacy\<close>
  is the call with \<open>type: "legacy"\<close>, which resolves to a \<open>gasPrice\<close> that may be
  \<open>undefined\<close>.
\<close>

record PublicClient =
  chainId :: int
  multicall :: "contractCall list \<Rightarrow> error + multicallResult list"
  estimateFeesPerGas :: "error + FeesPerGas"
  estimateFeesPerGasLegacy :: "error + int option"
  getFeeHistory :: "error + FeeHistory"
  getBlock :: "error + Block"
  clientGetGasPrice :: "error + int" \<comment> \<open>\<open>publicClient.getGasPrice()\<close>\<close>

text \<open>A client all of whose calls reject, as a base for the examples.\<close>

definition offlineClient :: PublicClient where
  "offlineClient =
     \<lparr>chainId = 1,
      multicall = (\<lambda>contracts. Inl (ExternalError ''offline'')),
      estimateFeesPerGas = Inl (ExternalError ''offline''),
      estimateFeesPerGasLegacy = Inl (ExternalError ''offline''),
      getFeeHistory = Inl (ExternalError ''offline''),
      getBlock = Inl (ExternalError ''offline''),
      clientGetGasPrice = Inl (ExternalError ''offline'')\<rparr>"


section \<open>The memory store of the mempool\<close>

record UserOperation =
  sender :: Address
  nonce :: nat
  callData :: string

record UserOperationInfo =
  userOperation :: UserOperation
  entryPoint :: Address
  userOperationHash :: HexData32
  lastReplaced :: int
  firstSubmitted :: int

record TransactionInfo =
  transactionHash :: HexData32
  previousTransactionHashes :: "HexData32 list"

record SubmittedUserOperation =
  submittedUserOperation :: UserOperationInfo \<comment> \<open>the field \<open>userOperation\<close> of the source\<close>
  transactionInfo :: TransactionInfo

record MemoryStore =
  outstandingUserOperations :: "UserOperationInfo list"
  avaiableOutstandingUserOperations :: "UserOperationInfo list"
  processingUserOperations :: "UserOperationInfo list"
  submittedUserOperations :: "SubmittedUserOperation list"

text \<open>The constructor: four empty arrays.\<close>

definition newMemoryStore :: MemoryStore where
  "newMemoryStore =
     \<lparr>outstandingUserOperations = [], avaiableOutstandingUserOperations = [],
      processingUserOperations = [], submittedUserOperations = []\<rparr>"

subsection \<open>Array primitives\<close>

text \<open>\<open>Array.prototype.findIndex\<close>: the first index whose element satisfies the predicate,
  \<open>None\<close> for the source's \<open>-1\<close>.\<close>

fun findIndex :: "('a \<Rightarrow> bool) \<Rightarrow> 'a list \<Rightarrow> nat option" where
  "findIndex p [] = None"
| "findIndex p (x # xs) =
     (if p x then Some 0 else (case findIndex p xs of None \<Rightarrow> None | Some i \<Rightarrow> Some (Suc i)))"

text \<open>\<open>xs.splice(i, 1)\<close> for an index inside the array.\<close>

definition splice1 :: "nat \<Rightarrow> 'a list \<Rightarrow> 'a list" where
  "splice1 i xs = take i xs @ drop (Suc i) xs"

text \<open>\<open>[...new Set(xs)]\<close>: a JavaScript \<open>Set\<close> iterates in insertion order, so every value
  stays at the place of its first occurrence.\<close>

fun setInsertionOrder :: "'a list \<Rightarrow> 'a list \<Rightarrow> 'a list" where
  "setInsertionOrder acc [] = acc"
| "setInsertionOrder acc (x # xs) =
     setInsertionOrder (if x \<in> set acc then acc else acc @ [x]) xs"

subsection \<open>Adding and removing\<close>

definition addOutstanding :: "UserOperationInfo \<Rightarrow> MemoryStore \<Rightarrow> MemoryStore" where
  "addOutstanding op s =
     s\<lparr>outstandingUserOperations := outstandingUserOperations s @ [op]\<rparr>"

definition addProcessing :: "UserOperationInfo \<Rightarrow> MemoryStore \<Rightarrow> MemoryStore" where
  "addProcessing op s =
     s\<lparr>processingUserOperations := processingUserOperations s @ [op]\<rparr>"

definition addSubmitted :: "SubmittedUserOperation \<Rightarrow> MemoryStore \<Rightarrow> MemoryStore" where
  "addSubmitted op s =
     s\<lparr>submittedUserOperations := submittedUserOperations s @ [op]\<rparr>"

definition removeOutstanding :: "HexData32 \<Rightarrow> MemoryStore \<Rightarrow> MemoryStore" where
  "removeOutstanding userOpHash s =
     (case findIndex (\<lambda>op. userOperationHash op = userOpHash) (outstandingUserOperations s) of
        None \<Rightarrow> s
      | Some index \<Rightarrow>
          (let s1 = s\<lparr>outstandingUserOperations := splice1 index (outstandingUserOperations s)\<rparr>
           in case findIndex (\<lambda>op. userOperationHash op = userOpHash)
                     (avaiableOutstandingUserOperations s1) of
                None \<Rightarrow> s1
              | Some availableIndex \<Rightarrow>
                  s1\<lparr>avaiableOutstandingUserOperations :=
                        splice1 availableIndex (avaiableOutstandingUserOperations s1)\<rparr>))"

definition removeProcessing :: "HexData32 \<Rightarrow> MemoryStore \<Rightarrow> MemoryStore" where
  "removeProcessing userOpHash s =
     (case findIndex (\<lambda>op. userOperationHash op = userOpHash) (processingUserOperations s) of
        None \<Rightarrow> s
      | Some index \<Rightarrow>
          s\<lparr>processingUserOperations := splice1 index (processingUserOperations s)\<rparr>)"

definition removeSubmitted :: "HexData32 \<Rightarrow> MemoryStore \<Rightarrow> MemoryStore" where
  "removeSubmitted userOpHash s =
     (case findIndex (\<lambda>op. userOperationHash (submittedUserOperation op) = userOpHash)
             (submittedUserOperations s) of
        None \<Rightarrow> s
      | Some index \<Rightarrow>
          s\<lparr>submittedUserOperations := splice1 index (submittedUserOperations s)\<rparr>)"

definition dumpOutstanding :: "MemoryStore \<Rightarrow> UserOperationInfo list" where
  "dumpOutstanding s = outstandingUserOperations s"

definition dumbAvailableOutstanding :: "MemoryStore \<Rightarrow> UserOperationInfo list" where
  "dumbAvailableOutstanding s = avaiableOutstandingUserOperations s"

subsection \<open>Reconciliation against the EntryPoint's nonces\<close>

text \<open>
  Modelled from the spec: \<open>getNonceKeyAndValue\<close> of \<open>@alto/utils\<close> is not part of the
  sources at hand. The spec packs a 256-bit nonce as \<open>(key << 64) | value\<close>: the key is the
  upper 192 bits, the value the lower 64 bits.
\<close>

definition getNonceKeyAndValue :: "UserOperation \<Rightarrow> nat \<times> nat" where
  "getNonceKeyAndValue op = (nonce op div 2 ^ 64, nonce op mod 2 ^ 64)"

text \<open>
  The source joins sender and nonce key into the string \<open>sender_nonceKey\<close>, collects these
  strings in a \<open>Set\<close> and splits each one at the underscore again. An address is \<open>0x\<close> and
  hex digits, the key is printed in decimal and read back by \<open>BigInt\<close>, so the string
  stands for the pair and two strings are equal exactly when the pairs are; the model keeps
  the pair.
\<close>

type_synonym senderNonceKeyPair = "Address \<times> nat"

definition getSenderNonceKeyPair :: "UserOperation \<Rightarrow> senderNonceKeyPair" where
  "getSenderNonceKeyPair op = (sender op, fst (getNonceKeyAndValue op))"

definition parseSenderNonceKeyPair :: "senderNonceKeyPair \<Rightarrow> Address \<times> nat" where
  "parseSenderNonceKeyPair senderNonceKeyPair =
     (case senderNonceKeyPair of (rawSender, rawNonceKey) \<Rightarrow> (rawSender, rawNonceKey))"

definition allSendersAndNonceKeys :: "UserOperationInfo list \<Rightarrow> (Address \<times> nat) list" where
  "allSendersAndNonceKeys outstandingOps =
     map parseSenderNonceKeyPair
       (setInsertionOrder [] (map (\<lambda>op. getSenderNonceKeyPair (userOperation op)) outstandingOps))"

definition nonceContracts :: "Address \<Rightarrow> (Address \<times> nat) list \<Rightarrow> contractCall list" where
  "nonceContracts ep pairs =
     map (\<lambda>senderNonceKeyPair.
            \<lparr>address = ep, functionName = ''getNonce'',
             args = (fst senderNonceKeyPair, snd senderNonceKeyPair)\<rparr>) pairs"

text \<open>The inner \<open>outstandingOps.map\<close>: the operations of the snapshot that match sender, key
  and returned nonce value, in snapshot order.\<close>

definition matchingOps ::
  "Address \<times> nat \<Rightarrow> nat \<Rightarrow> UserOperationInfo list \<Rightarrow> UserOperationInfo list" where
  "matchingOps senderAndNonceKey nonceValue outstandingOps =
     filter (\<lambda>op. sender (userOperation op) = fst senderAndNonceKey
                 \<and> fst (getNonceKeyAndValue (userOperation op)) = snd senderAndNonceKey
                 \<and> snd (getNonceKeyAndValue (userOperation op)) = nonceValue) outstandingOps"

text \<open>
  The \<open>for\<close> loop over \<open>i\<close>: pair \<open>i\<close> is read together with \<open>results[i]\<close>. When the answer
  is shorter than the list of pairs, \<open>results[i]\<close> is \<open>undefined\<close> and reading its
  \<open>status\<close> throws.
\<close>

fun promoteLoop ::
  "(Address \<times> nat) list \<Rightarrow> multicallResult list \<Rightarrow> UserOperationInfo list \<Rightarrow>
   UserOperationInfo list \<Rightarrow> error + UserOperationInfo list" where
  "promoteLoop [] results outstandingOps availableOutstandingOps = Inr availableOutstandingOps"
| "promoteLoop (p # ps) [] outstandingOps availableOutstandingOps = Inl TypeError"
| "promoteLoop (p # ps) (result # results) outstandingOps availableOutstandingOps =
     (case result of
        Success nonceValue \<Rightarrow>
          promoteLoop ps results outstandingOps
            (availableOutstandingOps @ matchingOps p nonceValue outstandingOps)
      | Failure e \<Rightarrow> promoteLoop ps results outstandingOps availableOutstandingOps)"

text \<open>
  The whole reconciliation, run without interleaving: the outcome (\<open>Inr ()\<close> when the
  promise resolves, \<open>Inl e\<close> when it rejects with \<open>e\<close>) and the store afterwards. The only
  assignment to the store is the last statement.
\<close>

definition updateAvailableUserOperations ::
  "PublicClient \<Rightarrow> Address \<Rightarrow> MemoryStore \<Rightarrow> (error + unit) \<times> MemoryStore" where
  "updateAvailableUserOperations client ep s =
     (let outstandingOps = dumpOutstanding s;
          pairs = allSendersAndNonceKeys outstandingOps
      in case multicall client (nonceContracts ep pairs) of
           Inl e \<Rightarrow> (Inl e, s)
         | Inr results \<Rightarrow>
             (case promoteLoop pairs results outstandingOps [] of
                Inl e \<Rightarrow> (Inl e, s)
              | Inr availableOutstandingOps \<Rightarrow>
                  (Inr (), s\<lparr>avaiableOutstandingUserOperations := availableOutstandingOps\<rparr>)))"

subsection \<open>Vocabulary of the mempool properties\<close>

text \<open>The \<open>(sender, nonceKey)\<close> pair and the nonce value of an entry of the store.\<close>

definition opPair :: "UserOperationInfo \<Rightarrow> Address \<times> nat" where
  "opPair op = getSenderNonceKeyPair (userOperation op)"

definition opNonceValue :: "UserOperationInfo \<Rightarrow> nat" where
  "opNonceValue op = snd (getNonceKeyAndValue (userOperation op))"

text \<open>The per-call result the multicall gave for a pair: the entry of the answer at the index
  of the pair in the list of queried pairs (the pairs are distinct), if there is one.\<close>

definition resultFor ::
  "(Address \<times> nat) list \<Rightarrow> multicallResult list \<Rightarrow> Address \<times> nat \<Rightarrow> multicallResult option" where
  "resultFor pairs results p = map_of (zip pairs results) p"

text \<open>An operation is promoted when the call for its pair succeeded and returned exactly the
  operation's nonce value.\<close>

definition promoted ::
  "(Address \<times> nat) list \<Rightarrow> multicallResult list \<Rightarrow> UserOperationInfo \<Rightarrow> bool" where
  "promoted pairs results op \<longleftrightarrow>
     resultFor pairs results (opPair op) = Some (Success (opNonceValue op))"

text \<open>What one pair contributes to the new list, given the result of its call.\<close>

definition promotedBy ::
  "Address \<times> nat \<Rightarrow> multicallResult \<Rightarrow> UserOperationInfo list \<Rightarrow> UserOperationInfo list" where
  "promotedBy p r outstandingOps =
     (case r of Success nonceValue \<Rightarrow> matchingOps p nonceValue outstandingOps | Failure e \<Rightarrow> [])"

text \<open>The hashes held by a list of entries, with their multiplicities: the store does not
  deduplicate.\<close>

definition hashesOf :: "UserOperationInfo list \<Rightarrow> HexData32 multiset" where
  "hashesOf xs = mset (map userOperationHash xs)"

text \<open>The invariant behind the subset property: counted with multiplicity, the hashes of
  available-outstanding are among those of outstanding.\<close>

definition storeInv :: "MemoryStore \<Rightarrow> bool" where
  "storeInv s \<longleftrightarrow>
     hashesOf (avaiableOutstandingUserOperations s) \<subseteq># hashesOf (outstandingUserOperations s)"

text \<open>
  The reconciliation is asynchronous: it copies outstanding, sends the multicall and
  awaits it, and only when the multicall has settled does the rest of the function run.
  Other calls on the store can run in between. The two halves are \<open>startUpdate\<close>, which
  leaves a reconciliation waiting with its snapshot, the pairs it asked about and what the
  multicall settles to, and \<open>resumeUpdate\<close>, which runs the loop on the snapshot and writes
  the result into the store as it is then. Resuming at once, on the store the
  reconciliation started from, is \<open>updateAvailableUserOperations\<close>.
\<close>

record pendingUpdate =
  snapshot :: "UserOperationInfo list"
  queried :: "(Address \<times> nat) list"
  answer :: "error + multicallResult list"

definition startUpdate :: "PublicClient \<Rightarrow> Address \<Rightarrow> MemoryStore \<Rightarrow> pendingUpdate" where
  "startUpdate client ep s =
     (let outstandingOps = dumpOutstanding s;
          pairs = allSendersAndNonceKeys outstandingOps
      in \<lparr>snapshot = outstandingOps, queried = pairs,
          answer = multicall client (nonceContracts ep pairs)\<rparr>)"

definition resumeUpdate :: "pendingUpdate \<Rightarrow> MemoryStore \<Rightarrow> (error + unit) \<times> MemoryStore" where
  "resumeUpdate p s =
     (case answer p of
        Inl e \<Rightarrow> (Inl e, s)
      | Inr results \<Rightarrow>
          (case promoteLoop (queried p) results (snapshot p) [] of
             Inl e \<Rightarrow> (Inl e, s)
           | Inr availableOutstandingOps \<Rightarrow>
               (Inr (), s\<lparr>avaiableOutstandingUserOperations := availableOutstandingOps\<rparr>)))"

text \<open>A synchronous call of the store's interface (\<open>clear\<close> left out); such a call runs to
  its end before anything else does. \<open>runCalls\<close> runs a sequence of them.\<close>

datatype call =
    AddOutstanding UserOperationInfo
  | AddProcessing UserOperationInfo
  | AddSubmitted SubmittedUserOperation
  | RemoveOutstanding HexData32
  | RemoveProcessing HexData32
  | RemoveSubmitted HexData32

fun perform :: "call \<Rightarrow> MemoryStore \<Rightarrow> MemoryStore" where
  "perform (AddOutstanding op) s = addOutstanding op s"
| "perform (AddProcessing op) s = addProcessing op s"
| "perform (AddSubmitted op) s = addSubmitted op s"
| "perform (RemoveOutstanding h) s = removeOutstanding h s"
| "perform (RemoveProcessing h) s = removeProcessing h s"
| "perform (RemoveSubmitted h) s = removeSubmitted h s"

fun runCalls :: "call list \<Rightarrow> MemoryStore \<Rightarrow> MemoryStore" where
  "runCalls [] s = s"
| "runCalls (c # cs) s = runCalls cs (perform c s)"

text \<open>
  A run of the store with its reconciliations: the store and the reconciliations that
  await their multicall. What happens in a run is a synchronous call, the call of
  \<open>updateAvailableUserOperations\<close> up to its \<open>await\<close>, or the multicall of the \<open>i\<close>-th
  waiting reconciliation settling, upon which the rest of that reconciliation runs. The
  multicalls may settle in any order.
\<close>

record mempoolRun =
  store :: MemoryStore
  pendingUpdates :: "pendingUpdate list"

definition newRun :: mempoolRun where
  "newRun = \<lparr>store = newMemoryStore, pendingUpdates = []\<rparr>"

datatype event =
    Call call
  | UpdateStarts PublicClient Address
  | UpdateResumes nat

fun stepRun :: "event \<Rightarrow> mempoolRun \<Rightarrow> mempoolRun" where
  "stepRun (Call c) r = r\<lparr>store := perform c (store r)\<rparr>"
| "stepRun (UpdateStarts client ep) r =
     r\<lparr>pendingUpdates := pendingUpdates r @ [startUpdate client ep (store r)]\<rparr>"
| "stepRun (UpdateResumes i) r =
     (if i < length (pendingUpdates r)
      then r\<lparr>store := snd (resumeUpdate (pendingUpdates r ! i) (store r)),
             pendingUpdates := splice1 i (pendingUpdates r)\<rparr>
      else r)"

fun runEvents :: "event list \<Rightarrow> mempoolRun \<Rightarrow> mempoolRun" where
  "runEvents [] r = r"
| "runEvents (e # es) r = runEvents es (stepRun e r)"

text \<open>No \<open>removeOutstanding\<close> of the run is called while a reconciliation awaits its
  multicall.\<close>

fun isRemoveOutstanding :: "event \<Rightarrow> bool" where
  "isRemoveOutstanding (Call (RemoveOutstanding h)) = True"
| "isRemoveOutstanding e = False"

fun removalsQuiet :: "event list \<Rightarrow> mempoolRun \<Rightarrow> bool" where
  "removalsQuiet [] r = True"
| "removalsQuiet (e # es) r =
     ((if isRemoveOutstanding e then pendingUpdates r = [] else True)
      \<and> removalsQuiet es (stepRun e r))"

text \<open>The invariant of such a run: the store's invariant, and every waiting reconciliation
  holds a snapshot whose hashes are still among those of outstanding, together with the
  pairs of that snapshot.\<close>

definition runInv :: "mempoolRun \<Rightarrow> bool" where
  "runInv r \<longleftrightarrow>
     storeInv (store r)
     \<and> list_all (\<lambda>p. hashesOf (snapshot p) \<subseteq># hashesOf (outstandingUserOperations (store r))
                     \<and> queried p = allSendersAndNonceKeys (snapshot p))
          (pendingUpdates r)"

text \<open>The place at which a pair is first seen in a snapshot: the number of entries before
  the first entry of that pair.\<close>

definition pairFirstSeen :: "UserOperationInfo list \<Rightarrow> Address \<times> nat \<Rightarrow> nat" where
  "pairFirstSeen outstandingOps p = length (takeWhile (\<lambda>op. opPair op \<noteq> p) outstandingOps)"

text \<open>Stand-ins for the external RPC client: one that answers every \<open>getNonce\<close> call from
  a table (a pair that is not in the table gets a failed call), one whose multicall rejects.
  \<open>exampleOp\<close> builds an entry from sender, nonce and hash.\<close>

definition oracleClient :: "((Address \<times> nat) \<times> multicallResult) list \<Rightarrow> PublicClient" where
  "oracleClient table =
     offlineClient\<lparr>multicall :=
        (\<lambda>contracts. Inr (map (\<lambda>c. case map_of table (args c) of
                                       Some r \<Rightarrow> r
                                     | None \<Rightarrow> Failure ''reverted'') contracts))\<rparr>"

definition failingClient :: "error \<Rightarrow> PublicClient" where
  "failingClient e = offlineClient\<lparr>multicall := (\<lambda>contracts. Inl e)\<rparr>"

definition exampleOp :: "Address \<Rightarrow> nat \<Rightarrow> HexData32 \<Rightarrow> UserOperationInfo" where
  "exampleOp a n h =
     \<lparr>userOperation = \<lparr>sender = a, nonce = n, callData = ''0x''\<rparr>,
      entryPoint = ''0xEP'', userOperationHash = h, lastReplaced = 0, firstSubmitted = 0\<rparr>"


section \<open>The gas price manager\<close>

subsection \<open>Arithmetic on bigints\<close>

text \<open>Division of bigints truncates toward zero. A zero divisor throws a \<open>RangeError\<close>:
  the divisors below are non-zero constants, except in \<open>getNextBaseFee\<close>, where the
  case is written out.\<close>

definition bigintDiv :: "int \<Rightarrow> int \<Rightarrow> int" where
  "bigintDiv a b = sgn a * sgn b * (\<bar>a\<bar> div \<bar>b\<bar>)"

text \<open>
  Modelled from the spec: \<open>maxBigInt\<close> and \<open>minBigInt\<close> of \<open>@alto/utils\<close> are not part of
  the sources at hand. The spec reads them as maximum and minimum.
\<close>

definition maxBigInt :: "int \<Rightarrow> int \<Rightarrow> int" where
  "maxBigInt a b = max a b"

definition minBigInt :: "int \<Rightarrow> int \<Rightarrow> int" where
  "minBigInt a b = min a b"

text \<open>\<open>parseGwei\<close> of viem on the literals of the source, and \<open>maxUint128\<close>.\<close>

definition MIN_POLYGON_GAS_PRICE :: int where
  "MIN_POLYGON_GAS_PRICE = 31000000000"

definition MIN_MUMBAI_GAS_PRICE :: int where
  "MIN_MUMBAI_GAS_PRICE = 1000000000"

definition maxUint128 :: int where
  "maxUint128 = 2 ^ 128 - 1"

text \<open>The chain ids of the enum \<open>ChainId\<close> and of \<open>viem/chains\<close>.\<close>

definition polygon_id :: int where "polygon_id = 137"
definition polygonMumbai_id :: int where "polygonMumbai_id = 80001"
definition celo_id :: int where "celo_id = 42220"
definition celoAlfajores_id :: int where "celoAlfajores_id = 44787"
definition dfk_id :: int where "dfk_id = 53935"
definition avalanche_id :: int where "avalanche_id = 43114"

subsection \<open>Configuration and what the manager reads from outside\<close>

type_synonym Account = Address

record AltoConfig =
  publicClient :: PublicClient
  gasPriceBump :: int
  gasPriceExpiry :: int
  gasPriceRefreshInterval :: int
  legacyTransactions :: bool
  chainType :: string
  maxExecutors :: "int option"
  executorPrivateKeys :: "Account list"

text \<open>The clock and the gas station: \<open>now\<close> is what \<open>Date.now()\<close> returns, \<open>gasStation\<close>
  the outcome of fetching and parsing the station's \<open>fast\<close> entry.\<close>

record Env =
  now :: int
  gasStation :: "error + GasPriceParameters"

subsection \<open>The Arbitrum base fee queues\<close>

text \<open>An entry of a history queue. The source names the value field after the queue
  (\<open>baseFee\<close>, \<open>baseFeePerGas\<close>, \<open>maxFeePerGas\<close>, \<open>maxPriorityFeePerGas\<close>); here it is
  \<open>fee\<close> in all of them.\<close>

record feeEntry =
  timestamp :: int
  fee :: int

text \<open>The closure of \<open>createArbitrumManager\<close>: its two queues and \<open>maxQueueSize\<close>.\<close>

record ArbitrumManager =
  queueL1BaseFee :: "feeEntry list"
  queueL2BaseFee :: "feeEntry list"
  arbitrumMaxQueueSize :: int

definition queueValidity :: int where
  "queueValidity = 15000"

definition createArbitrumManager :: "int \<Rightarrow> ArbitrumManager" where
  "createArbitrumManager maxQueueSize' =
     \<lparr>queueL1BaseFee = [], queueL2BaseFee = [], arbitrumMaxQueueSize = maxQueueSize'\<rparr>"

text \<open>\<open>last\<close> is the last element itself, so writing its fields changes the queue in
  place; \<open>shift\<close> on an empty array does nothing. The time of the save is the clock's.\<close>

definition saveL1BaseFee :: "ArbitrumManager \<Rightarrow> int \<times> int \<Rightarrow> ArbitrumManager" where
  "saveL1BaseFee m arg =
     (case arg of (baseFee, timestamp') \<Rightarrow>
        if baseFee = 0 then m
        else (case (if length (queueL1BaseFee m) > 0 then Some (last (queueL1BaseFee m)) else None) of
                None \<Rightarrow>
                  m\<lparr>queueL1BaseFee :=
                      (if int (length (queueL1BaseFee m)) \<ge> arbitrumMaxQueueSize m
                       then drop 1 (queueL1BaseFee m) else queueL1BaseFee m)
                      @ [\<lparr>timestamp = timestamp', fee = baseFee\<rparr>]\<rparr>
              | Some last' \<Rightarrow>
                  if timestamp' - timestamp last' \<ge> queueValidity then
                    m\<lparr>queueL1BaseFee :=
                        (if int (length (queueL1BaseFee m)) \<ge> arbitrumMaxQueueSize m
                         then drop 1 (queueL1BaseFee m) else queueL1BaseFee m)
                        @ [\<lparr>timestamp = timestamp', fee = baseFee\<rparr>]\<rparr>
                  else if baseFee < fee last' then
                    m\<lparr>queueL1BaseFee :=
                        butlast (queueL1BaseFee m) @ [\<lparr>timestamp = timestamp', fee = baseFee\<rparr>]\<rparr>
                  else m))"

definition saveL2BaseFee :: "ArbitrumManager \<Rightarrow> int \<times> int \<Rightarrow> ArbitrumManager" where
  "saveL2BaseFee m arg =
     (case arg of (baseFee, timestamp') \<Rightarrow>
        if baseFee = 0 then m
        else (case (if length (queueL2BaseFee m) > 0 then Some (last (queueL2BaseFee m)) else None) of
                None \<Rightarrow>
                  m\<lparr>queueL2BaseFee :=
                      (if int (length (queueL2BaseFee m)) \<ge> arbitrumMaxQueueSize m
                       then drop 1 (queueL2BaseFee m) else queueL2BaseFee m)
                      @ [\<lparr>timestamp = timestamp', fee = baseFee\<rparr>]\<rparr>
              | Some last' \<Rightarrow>
                  if timestamp' - timestamp last' \<ge> queueValidity then
                    m\<lparr>queueL2BaseFee :=
                        (if int (length (queueL2BaseFee m)) \<ge> arbitrumMaxQueueSize m
                         then drop 1 (queueL2BaseFee m) else queueL2BaseFee m)
                        @ [\<lparr>timestamp = timestamp', fee = baseFee\<rparr>]\<rparr>
                  else if baseFee < fee last' then
                    m\<lparr>queueL2BaseFee :=
                        butlast (queueL2BaseFee m) @ [\<lparr>timestamp = timestamp', fee = baseFee\<rparr>]\<rparr>
                  else m))"

definition getMinL1BaseFee :: "ArbitrumManager \<Rightarrow> int" where
  "getMinL1BaseFee m =
     (case queueL1BaseFee m of
        [] \<Rightarrow> 1
      | first # rest \<Rightarrow>
          foldl (\<lambda>acc cur. minBigInt (fee cur) acc) (fee first) (queueL1BaseFee m))"

definition getMaxL1BaseFee :: "ArbitrumManager \<Rightarrow> int" where
  "getMaxL1BaseFee m =
     (case queueL1BaseFee m of
        [] \<Rightarrow> maxUint128
      | first # rest \<Rightarrow>
          foldl (\<lambda>acc cur. maxBigInt (fee cur) acc) (fee first) (queueL1BaseFee m))"

definition getMaxL2BaseFee :: "ArbitrumManager \<Rightarrow> int" where
  "getMaxL2BaseFee m =
     (case queueL2BaseFee m of
        [] \<Rightarrow> maxUint128
      | first # rest \<Rightarrow>
          foldl (\<lambda>acc cur. maxBigInt (fee cur) acc) (fee first) (queueL2BaseFee m))"

subsection \<open>Floors and the bump\<close>

definition getPolygonGasPriceParameters :: "Env \<Rightarrow> AltoConfig \<Rightarrow> GasPriceParameters option" where
  "getPolygonGasPriceParameters env config =
     (case gasStation env of Inl e \<Rightarrow> None | Inr fast \<Rightarrow> Some fast)"

definition getDefaultGasFee :: "AltoConfig \<Rightarrow> int" where
  "getDefaultGasFee config =
     (if chainId (publicClient config) = polygon_id then MIN_POLYGON_GAS_PRICE
      else if chainId (publicClient config) = polygonMumbai_id then MIN_MUMBAI_GAS_PRICE
      else 0)"

definition bumpTheGasPrice :: "AltoConfig \<Rightarrow> GasPriceParameters \<Rightarrow> GasPriceParameters" where
  "bumpTheGasPrice config gasPrice =
     (let bumpAmount = gasPriceBump config;
          maxPriorityFeePerGas' =
            maxBigInt (maxPriorityFeePerGas gasPrice) (getDefaultGasFee config);
          maxFeePerGas' = maxBigInt (maxFeePerGas gasPrice) maxPriorityFeePerGas';
          result = \<lparr>maxFeePerGas = bigintDiv (maxFeePerGas' * bumpAmount) 100,
                    maxPriorityFeePerGas = bigintDiv (maxPriorityFeePerGas' * bumpAmount) 100\<rparr>
      in if chainId (publicClient config) = celo_id
            \<or> chainId (publicClient config) = celoAlfajores_id then
           (let maxFee = maxBigInt (maxFeePerGas result) (maxPriorityFeePerGas result)
            in \<lparr>maxFeePerGas = maxFee, maxPriorityFeePerGas = maxFee\<rparr>)
         else if chainId (publicClient config) = dfk_id then
           \<lparr>maxFeePerGas = maxBigInt 5000000000 (maxFeePerGas result),
            maxPriorityFeePerGas = maxBigInt 5000000000 (maxPriorityFeePerGas result)\<rparr>
         else if chainId (publicClient config) = avalanche_id then
           \<lparr>maxFeePerGas = maxBigInt 1500000000 (maxFeePerGas result),
            maxPriorityFeePerGas = maxBigInt 1500000000 (maxPriorityFeePerGas result)\<rparr>
         else result)"

subsection \<open>Estimating the price\<close>

definition getLegacyTransactionGasPrice :: "AltoConfig \<Rightarrow> error + GasPriceParameters" where
  "getLegacyTransactionGasPrice config =
     (let gasPrice = (case estimateFeesPerGasLegacy (publicClient config) of
                        Inl e \<Rightarrow> None
                      | Inr gasInfoGasPrice \<Rightarrow> gasInfoGasPrice)
      in case gasPrice of
           None \<Rightarrow>
             (case clientGetGasPrice (publicClient config) of
                Inl e \<Rightarrow> Inl e
              | Inr g \<Rightarrow> Inr \<lparr>maxFeePerGas = g, maxPriorityFeePerGas = g\<rparr>)
         | Some g \<Rightarrow> Inr \<lparr>maxFeePerGas = g, maxPriorityFeePerGas = g\<rparr>)"

text \<open>The \<open>reduce\<close> over the reward rows, from the left: \<open>cur[0] + acc\<close> throws when a row is
  empty, since \<open>cur[0]\<close> is then \<open>undefined\<close>.\<close>

fun rewardSum :: "int list list \<Rightarrow> int \<Rightarrow> error + int" where
  "rewardSum [] acc = Inr acc"
| "rewardSum (cur # rest) acc =
     (case cur of [] \<Rightarrow> Inl TypeError | r # rs \<Rightarrow> rewardSum rest (r + acc))"

definition getFallBackMaxPriorityFeePerGas :: "AltoConfig \<Rightarrow> int \<Rightarrow> error + int" where
  "getFallBackMaxPriorityFeePerGas config gasPrice =
     (case getFeeHistory (publicClient config) of
        Inl e \<Rightarrow> Inl e
      | Inr feeHistory \<Rightarrow>
          (case reward feeHistory of
             None \<Rightarrow> Inr gasPrice
           | Some rows \<Rightarrow>
               (case rewardSum rows 0 of
                  Inl e \<Rightarrow> Inl e
                | Inr rewardTotal \<Rightarrow> Inr (minBigInt (bigintDiv rewardTotal 10) gasPrice))))"

text \<open>\<open>block.baseFeePerGas || ...\<close> falls back to the gas price when the base fee is
  \<open>null\<close> or \<open>0n\<close>. The third branch computes its delta from \<open>currentGasUsed - gasTarget\<close>,
  as the source does.\<close>

definition getNextBaseFee :: "AltoConfig \<Rightarrow> error + int" where
  "getNextBaseFee config =
     (case getBlock (publicClient config) of
        Inl e \<Rightarrow> Inl e
      | Inr block \<Rightarrow>
          (case (case baseFeePerGas block of
                   None \<Rightarrow> clientGetGasPrice (publicClient config)
                 | Some b \<Rightarrow> if b = 0 then clientGetGasPrice (publicClient config) else Inr b) of
             Inl e \<Rightarrow> Inl e
           | Inr currentBaseFeePerGas \<Rightarrow>
               (let currentGasUsed = gasUsed block;
                    gasTarget = bigintDiv (gasLimit block) 2
                in if currentGasUsed = gasTarget then Inr currentBaseFeePerGas
                   else if currentGasUsed > gasTarget then
                     (let gasUsedDelta = currentGasUsed - gasTarget
                      in if gasTarget = 0 then Inl RangeError
                         else
                           (let baseFeePerGasDelta =
                                  maxBigInt
                                    (bigintDiv
                                       (bigintDiv (currentBaseFeePerGas * gasUsedDelta) gasTarget) 8)
                                    1
                            in Inr (currentBaseFeePerGas + baseFeePerGasDelta)))
                   else
                     (let gasUsedDelta = currentGasUsed - gasTarget
                      in if gasTarget = 0 then Inl RangeError
                         else
                           (let baseFeePerGasDelta =
                                  bigintDiv
                                    (bigintDiv (currentBaseFeePerGas * gasUsedDelta) gasTarget) 8
                            in Inr (currentBaseFeePerGas - baseFeePerGasDelta))))))"

definition estimateGasPrice :: "AltoConfig \<Rightarrow> error + GasPriceParameters" where
  "estimateGasPrice config =
     (let fees = (case estimateFeesPerGas (publicClient config) of
                    Inl e \<Rightarrow> (None, None)
                  | Inr f \<Rightarrow> (feesMaxFeePerGas f, feesMaxPriorityFeePerGas f));
          maxFeePerGas0 = fst fees;
          maxPriorityFeePerGas0 = snd fees
      in case (case maxPriorityFeePerGas0 of
                 None \<Rightarrow>
                   getFallBackMaxPriorityFeePerGas config
                     (case maxFeePerGas0 of None \<Rightarrow> 0 | Some f \<Rightarrow> f)
               | Some p \<Rightarrow> Inr p) of
           Inl e \<Rightarrow> Inl e
         | Inr maxPriorityFeePerGas1 \<Rightarrow>
             (case (case maxFeePerGas0 of
                      None \<Rightarrow>
                        (case getNextBaseFee config of
                           Inl e \<Rightarrow> Inl e
                         | Inr nextBaseFee \<Rightarrow> Inr (nextBaseFee + maxPriorityFeePerGas1))
                    | Some f \<Rightarrow> Inr f) of
                Inl e \<Rightarrow> Inl e
              | Inr maxFeePerGas1 \<Rightarrow>
                  Inr \<lparr>maxFeePerGas = maxFeePerGas1,
                       maxPriorityFeePerGas =
                         (if maxPriorityFeePerGas1 = 0 then bigintDiv maxFeePerGas1 200
                          else maxPriorityFeePerGas1)\<rparr>))"

definition innerGetGasPrice :: "Env \<Rightarrow> AltoConfig \<Rightarrow> error + GasPriceParameters" where
  "innerGetGasPrice env config =
     (case (if chainId (publicClient config) = polygon_id
               \<or> chainId (publicClient config) = polygonMumbai_id
            then getPolygonGasPriceParameters env config else None) of
        Some polygonEstimate \<Rightarrow>
          (let gasPrice = bumpTheGasPrice config
                            \<lparr>maxFeePerGas = maxFeePerGas polygonEstimate,
                             maxPriorityFeePerGas = maxPriorityFeePerGas polygonEstimate\<rparr>
           in Inr \<lparr>maxFeePerGas = maxBigInt (maxFeePerGas gasPrice) 0,
                   maxPriorityFeePerGas = maxBigInt (maxPriorityFeePerGas gasPrice) 0\<rparr>)
      | None \<Rightarrow>
          if legacyTransactions config then
            (case getLegacyTransactionGasPrice config of
               Inl e \<Rightarrow> Inl e
             | Inr legacy \<Rightarrow>
                 (let gasPrice = bumpTheGasPrice config legacy
                  in Inr \<lparr>maxFeePerGas = maxBigInt (maxFeePerGas gasPrice) 0,
                          maxPriorityFeePerGas = maxBigInt (maxPriorityFeePerGas gasPrice) 0\<rparr>))
          else
            (case estimateGasPrice config of
               Inl e \<Rightarrow> Inl e
             | Inr estimatedPrice \<Rightarrow>
                 (let gasPrice = bumpTheGasPrice config
                                   \<lparr>maxFeePerGas = maxFeePerGas estimatedPrice,
                                    maxPriorityFeePerGas = maxPriorityFeePerGas estimatedPrice\<rparr>
                  in Inr \<lparr>maxFeePerGas =
                            maxBigInt (maxFeePerGas gasPrice) (maxFeePerGas estimatedPrice),
                          maxPriorityFeePerGas =
                            maxBigInt (maxPriorityFeePerGas gasPrice)
                              (maxPriorityFeePerGas estimatedPrice)\<rparr>)))"

subsection \<open>The three fee queues\<close>

record GasPriceManagerState =
  maxQueueSize :: int
  queueBaseFeePerGas :: "feeEntry list"
  queueMaxFeePerGas :: "feeEntry list"
  queueMaxPriorityFeePerGas :: "feeEntry list"

text \<open>The state \<open>createGasPriceManager\<close> starts from, before its first refresh.\<close>

definition initialState :: "AltoConfig \<Rightarrow> GasPriceManagerState" where
  "initialState config =
     \<lparr>maxQueueSize = gasPriceExpiry config, queueBaseFeePerGas = [],
      queueMaxFeePerGas = [], queueMaxPriorityFeePerGas = []\<rparr>"

definition saveMaxFeePerGas :: "GasPriceManagerState \<Rightarrow> int \<times> int \<Rightarrow> GasPriceManagerState" where
  "saveMaxFeePerGas state arg =
     (case arg of (maxFeePerGas', timestamp') \<Rightarrow>
        (let queue = queueMaxFeePerGas state
         in case (if length queue > 0 then Some (last queue) else None) of
              None \<Rightarrow>
                state\<lparr>queueMaxFeePerGas :=
                    (if int (length queue) \<ge> maxQueueSize state then drop 1 queue else queue)
                    @ [\<lparr>timestamp = timestamp', fee = maxFeePerGas'\<rparr>]\<rparr>
            | Some last' \<Rightarrow>
                if timestamp' - timestamp last' \<ge> 1000 then
                  state\<lparr>queueMaxFeePerGas :=
                      (if int (length queue) \<ge> maxQueueSize state then drop 1 queue else queue)
                      @ [\<lparr>timestamp = timestamp', fee = maxFeePerGas'\<rparr>]\<rparr>
                else if maxFeePerGas' < fee last' then
                  state\<lparr>queueMaxFeePerGas :=
                      butlast queue @ [\<lparr>timestamp = timestamp', fee = maxFeePerGas'\<rparr>]\<rparr>
                else state))"

definition saveMaxPriorityFeePerGas ::
  "GasPriceManagerState \<Rightarrow> int \<times> int \<Rightarrow> GasPriceManagerState" where
  "saveMaxPriorityFeePerGas state arg =
     (case arg of (maxPriorityFeePerGas', timestamp') \<Rightarrow>
        (let queue = queueMaxPriorityFeePerGas state
         in case (if length queue > 0 then Some (last queue) else None) of
              None \<Rightarrow>
                state\<lparr>queueMaxPriorityFeePerGas :=
                    (if int (length queue) \<ge> maxQueueSize state then drop 1 queue else queue)
                    @ [\<lparr>timestamp = timestamp', fee = maxPriorityFeePerGas'\<rparr>]\<rparr>
            | Some last' \<Rightarrow>
                if timestamp' - timestamp last' \<ge> 1000 then
                  state\<lparr>queueMaxPriorityFeePerGas :=
                      (if int (length queue) \<ge> maxQueueSize state then drop 1 queue else queue)
                      @ [\<lparr>timestamp = timestamp', fee = maxPriorityFeePerGas'\<rparr>]\<rparr>
                else if maxPriorityFeePerGas' < fee last' then
                  state\<lparr>queueMaxPriorityFeePerGas :=
                      butlast queue @ [\<lparr>timestamp = timestamp', fee = maxPriorityFeePerGas'\<rparr>]\<rparr>
                else state))"

definition saveBaseFeePerGas :: "GasPriceManagerState \<Rightarrow> int \<times> int \<Rightarrow> GasPriceManagerState" where
  "saveBaseFeePerGas state arg =
     (case arg of (baseFeePerGas', timestamp') \<Rightarrow>
        (let queue = queueBaseFeePerGas state
         in case (if length queue > 0 then Some (last queue) else None) of
              None \<Rightarrow>
                state\<lparr>queueBaseFeePerGas :=
                    (if int (length queue) \<ge> maxQueueSize state then drop 1 queue else queue)
                    @ [\<lparr>timestamp = timestamp', fee = baseFeePerGas'\<rparr>]\<rparr>
            | Some last' \<Rightarrow>
                if timestamp' - timestamp last' \<ge> 1000 then
                  state\<lparr>queueBaseFeePerGas :=
                      (if int (length queue) \<ge> maxQueueSize state then drop 1 queue else queue)
                      @ [\<lparr>timestamp = timestamp', fee = baseFeePerGas'\<rparr>]\<rparr>
                else if baseFeePerGas' < fee last' then
                  state\<lparr>queueBaseFeePerGas :=
                      butlast queue @ [\<lparr>timestamp = timestamp', fee = baseFeePerGas'\<rparr>]\<rparr>
                else state))"

text \<open>A refresh: the promise wrapped around the two saves runs them at once. The outcome
  comes with the state afterwards; a refresh that rejects has saved nothing.\<close>

definition updateGasPrice ::
  "Env \<Rightarrow> AltoConfig \<Rightarrow> GasPriceManagerState \<Rightarrow>
   (error + GasPriceParameters) \<times> GasPriceManagerState" where
  "updateGasPrice env config state =
     (case innerGetGasPrice env config of
        Inl e \<Rightarrow> (Inl e, state)
      | Inr gasPrice \<Rightarrow>
          (let timestamp' = now env;
               state1 = saveMaxFeePerGas state (maxFeePerGas gasPrice, timestamp');
               state2 = saveMaxPriorityFeePerGas state1 (maxPriorityFeePerGas gasPrice, timestamp')
           in (Inr gasPrice, state2)))"

text \<open>With a refresh interval the last entries of the two queues are read; on an empty
  queue the destructuring of \<open>undefined\<close> throws.\<close>

definition getGasPrice ::
  "Env \<Rightarrow> AltoConfig \<Rightarrow> GasPriceManagerState \<Rightarrow>
   (error + GasPriceParameters) \<times> GasPriceManagerState" where
  "getGasPrice env config state =
     (if gasPriceRefreshInterval config = 0 then updateGasPrice env config state
      else if queueMaxPriorityFeePerGas state = [] then (Inl TypeError, state)
      else if queueMaxFeePerGas state = [] then (Inl TypeError, state)
      else (Inr \<lparr>maxFeePerGas = fee (last (queueMaxFeePerGas state)),
                  maxPriorityFeePerGas = fee (last (queueMaxPriorityFeePerGas state))\<rparr>,
            state))"

definition getMinMaxFeePerGas ::
  "Env \<Rightarrow> AltoConfig \<Rightarrow> GasPriceManagerState \<Rightarrow> (error + int) \<times> GasPriceManagerState" where
  "getMinMaxFeePerGas env config state =
     (case (if length (queueMaxFeePerGas state) = 0
            then (case getGasPrice env config state of
                    (Inl e, state') \<Rightarrow> (Inl e, state')
                  | (Inr g, state') \<Rightarrow> (Inr (), state'))
            else (Inr (), state)) of
        (Inl e, state') \<Rightarrow> (Inl e, state')
      | (Inr u, state') \<Rightarrow>
          (case queueMaxFeePerGas state' of
             [] \<Rightarrow> (Inl TypeError, state')
           | first # rest \<Rightarrow>
               (Inr (foldl (\<lambda>acc cur. minBigInt (fee cur) acc) (fee first)
                       (queueMaxFeePerGas state')),
                state')))"

definition getMinMaxPriorityFeePerGas ::
  "Env \<Rightarrow> AltoConfig \<Rightarrow> GasPriceManagerState \<Rightarrow> (error + int) \<times> GasPriceManagerState" where
  "getMinMaxPriorityFeePerGas env config state =
     (case (if length (queueMaxPriorityFeePerGas state) = 0
            then (case getGasPrice env config state of
                    (Inl e, state') \<Rightarrow> (Inl e, state')
                  | (Inr g, state') \<Rightarrow> (Inr (), state'))
            else (Inr (), state)) of
        (Inl e, state') \<Rightarrow> (Inl e, state')
      | (Inr u, state') \<Rightarrow>
          (case queueMaxPriorityFeePerGas state' of
             [] \<Rightarrow> (Inl TypeError, state')
           | first # rest \<Rightarrow>
               (Inr (foldl (\<lambda>acc cur. minBigInt (fee cur) acc) (fee first)
                       (queueMaxPriorityFeePerGas state')),
                state')))"

definition validateGasPrice ::
  "Env \<Rightarrow> AltoConfig \<Rightarrow> GasPriceManagerState \<Rightarrow> GasPriceParameters \<Rightarrow>
   (error + unit) \<times> GasPriceManagerState" where
  "validateGasPrice env config state gasPrice =
     (case getMinMaxFeePerGas env config state of
        (Inl e, state1) \<Rightarrow> (Inl e, state1)
      | (Inr lowestMaxFeePerGas0, state1) \<Rightarrow>
          (case getMinMaxPriorityFeePerGas env config state1 of
             (Inl e, state2) \<Rightarrow> (Inl e, state2)
           | (Inr lowestMaxPriorityFeePerGas0, state2) \<Rightarrow>
               (let lowestMaxFeePerGas =
                      (if chainType config = ''hedera''
                       then bigintDiv lowestMaxFeePerGas0 (10 ^ 9) else lowestMaxFeePerGas0);
                    lowestMaxPriorityFeePerGas =
                      (if chainType config = ''hedera''
                       then bigintDiv lowestMaxPriorityFeePerGas0 (10 ^ 9)
                       else lowestMaxPriorityFeePerGas0)
                in if maxFeePerGas gasPrice < lowestMaxFeePerGas then
                     (Inl (MaxFeePerGasTooLow lowestMaxFeePerGas (maxFeePerGas gasPrice)), state2)
                   else if maxPriorityFeePerGas gasPrice < lowestMaxPriorityFeePerGas then
                     (Inl (MaxPriorityFeePerGasTooLow lowestMaxPriorityFeePerGas
                             (maxPriorityFeePerGas gasPrice)), state2)
                   else (Inr (), state2))))"

subsection \<open>Vocabulary of the gas price properties\<close>

text \<open>
  The history insertion rule in the spec's words: on an empty queue, or when the new
  timestamp is at least one slice after the last entry's, evict the oldest entry if the
  queue is at capacity and append; else, if the value is below the last entry's, overwrite
  the last entry's value and timestamp; else discard.
\<close>

definition historyInsert ::
  "int \<Rightarrow> int \<Rightarrow> feeEntry list \<Rightarrow> int \<times> int \<Rightarrow> feeEntry list" where
  "historyInsert windowSlice capacity queue arg =
     (if queue = [] \<or> snd arg - timestamp (last queue) \<ge> windowSlice then
        (if int (length queue) \<ge> capacity then tl queue else queue)
        @ [\<lparr>timestamp = snd arg, fee = fst arg\<rparr>]
      else if fst arg < fee (last queue) then
        butlast queue @ [\<lparr>timestamp = snd arg, fee = fst arg\<rparr>]
      else queue)"

text \<open>A queue within its bounds: at most \<open>capacity\<close> entries, timestamps non-decreasing.\<close>

definition windowOk :: "int \<Rightarrow> feeEntry list \<Rightarrow> bool" where
  "windowOk capacity queue \<longleftrightarrow>
     int (length queue) \<le> capacity \<and> sorted (map timestamp queue)"

text \<open>A save into one of the three fee queues, with value and timestamp, and a save into
  one of the Arbitrum queues, with base fee and the time of the clock; a sequence of saves
  is run with \<open>foldl\<close>.\<close>

datatype feeSave =
    SaveBaseFeePerGas int int
  | SaveMaxFeePerGas int int
  | SaveMaxPriorityFeePerGas int int

fun applyFeeSave :: "GasPriceManagerState \<Rightarrow> feeSave \<Rightarrow> GasPriceManagerState" where
  "applyFeeSave state (SaveBaseFeePerGas v t) = saveBaseFeePerGas state (v, t)"
| "applyFeeSave state (SaveMaxFeePerGas v t) = saveMaxFeePerGas state (v, t)"
| "applyFeeSave state (SaveMaxPriorityFeePerGas v t) = saveMaxPriorityFeePerGas state (v, t)"

fun feeSaveTime :: "feeSave \<Rightarrow> int" where
  "feeSaveTime (SaveBaseFeePerGas v t) = t"
| "feeSaveTime (SaveMaxFeePerGas v t) = t"
| "feeSaveTime (SaveMaxPriorityFeePerGas v t) = t"

datatype arbitrumSave =
    SaveL1BaseFee int int
  | SaveL2BaseFee int int

fun applyArbitrumSave :: "ArbitrumManager \<Rightarrow> arbitrumSave \<Rightarrow> ArbitrumManager" where
  "applyArbitrumSave m (SaveL1BaseFee v t) = saveL1BaseFee m (v, t)"
| "applyArbitrumSave m (SaveL2BaseFee v t) = saveL2BaseFee m (v, t)"

fun arbitrumSaveTime :: "arbitrumSave \<Rightarrow> int" where
  "arbitrumSaveTime (SaveL1BaseFee v t) = t"
| "arbitrumSaveTime (SaveL2BaseFee v t) = t"

text \<open>The bump in the order of the claim: multiply both fees first, then apply the floors.\<close>

definition bumpThenFloor :: "AltoConfig \<Rightarrow> GasPriceParameters \<Rightarrow> GasPriceParameters" where
  "bumpThenFloor config gasPrice =
     (let bumpedMaxFee = bigintDiv (maxFeePerGas gasPrice * gasPriceBump config) 100;
          bumpedPriorityFee = bigintDiv (maxPriorityFeePerGas gasPrice * gasPriceBump config) 100;
          priorityFee = max bumpedPriorityFee (getDefaultGasFee config)
      in \<lparr>maxFeePerGas = max bumpedMaxFee priorityFee, maxPriorityFeePerGas = priorityFee\<rparr>)"

text \<open>The next base fee in the words of the claim, for a block with base fee \<open>b\<close>, gas used
  \<open>u\<close> and gas limit \<open>l\<close>: below the target the base fee goes down.\<close>

definition nextBaseFeeFormula :: "int \<Rightarrow> int \<Rightarrow> int \<Rightarrow> int" where
  "nextBaseFeeFormula b u l =
     (let t = bigintDiv l 2
      in if u = t then b
         else if u > t then b + max (bigintDiv (bigintDiv (b * (u - t)) t) 8) 1
         else b - bigintDiv (bigintDiv (b * (t - u)) t) 8)"


text \<open>The minimum of a window, as validation compares it: divided by \<open>10\<^sup>9\<close> on Hedera.\<close>

definition windowMinimum :: "AltoConfig \<Rightarrow> feeEntry list \<Rightarrow> int" where
  "windowMinimum config queue =
     (if chainType config = ''hedera'' then bigintDiv (Min (fee ` set queue)) (10 ^ 9)
      else Min (fee ` set queue))"

text \<open>Example values: a configuration for a chain, a client that knows only its latest
  block, and an environment whose gas station is down.\<close>

definition exampleConfig :: "int \<Rightarrow> int \<Rightarrow> AltoConfig" where
  "exampleConfig chain bump =
     \<lparr>publicClient = offlineClient\<lparr>chainId := chain\<rparr>, gasPriceBump = bump, gasPriceExpiry = 3,
      gasPriceRefreshInterval = 0, legacyTransactions = False, chainType = ''default'',
      maxExecutors = None, executorPrivateKeys = []\<rparr>"

definition blockConfig :: "int \<Rightarrow> int \<Rightarrow> int \<Rightarrow> AltoConfig" where
  "blockConfig b u l =
     (exampleConfig 1 100)\<lparr>publicClient :=
        offlineClient\<lparr>getBlock := Inr \<lparr>baseFeePerGas = Some b, gasUsed = u, gasLimit = l\<rparr>\<rparr>\<rparr>"

definition exampleEnv :: "int \<Rightarrow> Env" where
  "exampleEnv t = \<lparr>now = t, gasStation = Inl (ExternalError ''offline'')\<rparr>"


definition windowState :: "feeEntry list \<Rightarrow> feeEntry list \<Rightarrow> GasPriceManagerState" where
  "windowState qf qp =
     \<lparr>maxQueueSize = 3, queueBaseFeePerGas = [], queueMaxFeePerGas = qf,
      queueMaxPriorityFeePerGas = qp\<rparr>"


section \<open>The local sender manager\<close>

text \<open>
  An account is identified with its address: the accounts of a configuration are distinct
  objects, and \<open>includes\<close> compares them by identity.

  \<open>xs.slice(0, n)\<close>: the first \<open>n\<close> elements, and for a negative \<open>n\<close> all but the last
  \<open>-n\<close>.
\<close>

definition slice0 :: "int \<Rightarrow> 'a list \<Rightarrow> 'a list" where
  "slice0 n xs = (if n \<ge> 0 then take (nat n) xs else take (length xs - nat (- n)) xs)"

definition getAvailableWallets :: "AltoConfig \<Rightarrow> Account list" where
  "getAvailableWallets config =
     (case maxExecutors config of
        None \<Rightarrow> executorPrivateKeys config
      | Some m \<Rightarrow>
          if int (length (executorPrivateKeys config)) > m
          then slice0 m (executorPrivateKeys config)
          else executorPrivateKeys config)"

text \<open>The closure of \<open>createLocalSenderManager\<close>: the configured wallets, the wallets that
  are free, and the value of the semaphore (the number of free permits).\<close>

record LocalSenderManager =
  wallets :: "Account list"
  availableWallets :: "Account list"
  semaphore :: int

definition createLocalSenderManager :: "AltoConfig \<Rightarrow> LocalSenderManager" where
  "createLocalSenderManager config =
     \<lparr>wallets = getAvailableWallets config,
      availableWallets = getAvailableWallets config,
      semaphore = int (length (getAvailableWallets config))\<rparr>"

text \<open>
  The promise a call returns, seen right after the call and whatever runs from it before
  control goes back to the caller. \<open>Pending\<close>: \<open>semaphore.acquire()\<close> found no permit
  and the call waits; the waiters' queue of the semaphore is not modelled, so the model
  describes runs in which no call is waiting when a wallet is pushed.
\<close>

datatype 'a promise = Pending | Resolved 'a | Rejected error

definition getWallet :: "LocalSenderManager \<Rightarrow> Account promise \<times> LocalSenderManager" where
  "getWallet m =
     (if semaphore m \<le> 0 then (Pending, m)
      else (let m1 = m\<lparr>semaphore := semaphore m - 1\<rparr>
            in case availableWallets m1 of
                 [] \<Rightarrow> (Rejected NoMoreWallets, m1\<lparr>semaphore := semaphore m1 + 1\<rparr>)
               | wallet # rest \<Rightarrow> (Resolved wallet, m1\<lparr>availableWallets := rest\<rparr>)))"

definition pushWallet :: "Account \<Rightarrow> LocalSenderManager \<Rightarrow> LocalSenderManager" where
  "pushWallet wallet m =
     (let m1 = (if wallet \<in> set (availableWallets m) then m
                else m\<lparr>availableWallets := availableWallets m @ [wallet]\<rparr>)
      in m1\<lparr>semaphore := semaphore m1 + 1\<rparr>)"

text \<open>\<open>n\<close> calls of \<open>getWallet\<close> in a row: the promises in call order and the manager
  afterwards.\<close>

fun getWallets :: "nat \<Rightarrow> LocalSenderManager \<Rightarrow> Account promise list \<times> LocalSenderManager" where
  "getWallets 0 m = ([], m)"
| "getWallets (Suc n) m =
     (case getWallet m of (p, m1) \<Rightarrow> (case getWallets n m1 of (ps, m2) \<Rightarrow> (p # ps, m2)))"

text \<open>The pool after every configured wallet has been handed out.\<close>

definition drainedPool :: "AltoConfig \<Rightarrow> LocalSenderManager" where
  "drainedPool config =
     snd (getWallets (length (getAvailableWallets config)) (createLocalSenderManager config))"

definition walletConfig :: "Account list \<Rightarrow> AltoConfig" where
  "walletConfig keys = (exampleConfig 1 100)\<lparr>executorPrivateKeys := keys\<rparr>"


section \<open>Properties of the memory store\<close>

subsection \<open>Arrays\<close>

lemma set_setInsertionOrder: "set (setInsertionOrder acc xs) = set acc \<union> set xs"
  by (induction xs arbitrary: acc) auto

lemma distinct_setInsertionOrder: "distinct acc \<Longrightarrow> distinct (setInsertionOrder acc xs)"
  by (induction xs arbitrary: acc) auto

lemma findIndex_None_iff: "findIndex p xs = None \<longleftrightarrow> (\<forall>x\<in>set xs. \<not> p x)"
  by (induction xs) (auto split: option.splits)

lemma findIndex_Some_split:
  "findIndex p xs = Some i \<Longrightarrow>
   \<exists>ys x zs. xs = ys @ x # zs \<and> p x \<and> (\<forall>y\<in>set ys. \<not> p y) \<and> i = length ys
      \<and> splice1 i xs = ys @ zs"
proof (induction xs arbitrary: i)
  case Nil
  then show ?case by simp
next
  case (Cons a xs)
  show ?case
  proof (cases "p a")
    case True
    with Cons.prems have "i = 0" by simp
    with True show ?thesis
      by (intro exI[of _ "[]"] exI[of _ a] exI[of _ xs]) (simp add: splice1_def)
  next
    case False
    with Cons.prems obtain j where j: "findIndex p xs = Some j" "i = Suc j"
      by (auto split: option.splits)
    from Cons.IH[OF j(1)] obtain ys x zs where
      "xs = ys @ x # zs" "p x" "\<forall>y\<in>set ys. \<not> p y" "j = length ys" "splice1 j xs = ys @ zs"
      by blast
    with False j show ?thesis
      by (intro exI[of _ "a # ys"] exI[of _ x] exI[of _ zs]) (simp add: splice1_def)
  qed
qed

subsection \<open>The queried pairs\<close>

lemma parseSenderNonceKeyPair_id: "parseSenderNonceKeyPair p = p"
  by (simp add: parseSenderNonceKeyPair_def split: prod.splits)

lemma distinct_allSendersAndNonceKeys: "distinct (allSendersAndNonceKeys ops)"
  by (simp add: allSendersAndNonceKeys_def distinct_setInsertionOrder
      parseSenderNonceKeyPair_id[abs_def])

lemma set_allSendersAndNonceKeys: "set (allSendersAndNonceKeys ops) = opPair ` set ops"
  by (auto simp: allSendersAndNonceKeys_def set_setInsertionOrder opPair_def
      parseSenderNonceKeyPair_id[abs_def])

lemma map_of_zip_notin: "p \<notin> set ps \<Longrightarrow> map_of (zip ps rs) p = None"
  by (metis map_of_eq_None_iff set_zip_leftD surjective_pairing imageE)


subsection \<open>The promotion loop\<close>

lemma promoteLoop_Inr:
  "length ps \<le> length rs \<Longrightarrow>
   promoteLoop ps rs S acc = Inr (acc @ concat (map (\<lambda>(p, r). promotedBy p r S) (zip ps rs)))"
  by (induction ps rs S acc rule: promoteLoop.induct)
     (auto simp: promotedBy_def split: multicallResult.splits)

lemma promoteLoop_Inl: "length rs < length ps \<Longrightarrow> promoteLoop ps rs S acc = Inl TypeError"
  by (induction ps rs S acc rule: promoteLoop.induct) (auto split: multicallResult.splits)

lemma promotedBy_filter:
  "promotedBy p r S = filter (\<lambda>op. opPair op = p \<and> r = Success (opNonceValue op)) S"
  by (cases r)
     (auto simp: promotedBy_def matchingOps_def opPair_def opNonceValue_def
        getSenderNonceKeyPair_def prod_eq_iff intro!: filter_cong)

lemma filter_pair_concat:
  "distinct ps \<Longrightarrow>
   filter (\<lambda>op. opPair op = q) (concat (map (\<lambda>(p, r). promotedBy p r S) (zip ps rs))) =
   filter (\<lambda>op. opPair op = q \<and> promoted ps rs op) S"
proof (induction ps arbitrary: rs)
  case Nil
  then show ?case by (simp add: promoted_def resultFor_def)
next
  case (Cons p ps)
  show ?case
  proof (cases rs)
    case Nil
    then show ?thesis by (simp add: promoted_def resultFor_def)
  next
    case rs: (Cons r rs')
    have IH: "filter (\<lambda>op. opPair op = q)
                (concat (map (\<lambda>(p, r). promotedBy p r S) (zip ps rs'))) =
              filter (\<lambda>op. opPair op = q \<and> promoted ps rs' op) S"
      using Cons.IH[of rs'] Cons.prems by simp
    show ?thesis
    proof (cases "q = p")
      case True
      have none: "map_of (zip ps rs') p = None"
        using Cons.prems by (simp add: map_of_zip_notin)
      have "filter (\<lambda>op. opPair op = q \<and> promoted ps rs' op) S = []"
        using True none by (auto simp: promoted_def resultFor_def filter_empty_conv)
      moreover have "filter (\<lambda>op. opPair op = q) (promotedBy p r S)
          = filter (\<lambda>op. opPair op = q \<and> promoted (p # ps) (r # rs') op) S"
        using True
        by (auto simp: promotedBy_filter promoted_def resultFor_def intro!: filter_cong)
      ultimately show ?thesis using IH rs by simp
    next
      case False
      have "filter (\<lambda>op. opPair op = q) (promotedBy p r S) = []"
        using False by (auto simp: promotedBy_filter filter_empty_conv)
      moreover have "filter (\<lambda>op. opPair op = q \<and> promoted ps rs' op) S
          = filter (\<lambda>op. opPair op = q \<and> promoted (p # ps) (r # rs') op) S"
        using False by (auto simp: promoted_def resultFor_def intro!: filter_cong)
      ultimately show ?thesis using IH rs by simp
    qed
  qed
qed

lemma mset_concat_promoted:
  "distinct ps \<Longrightarrow>
   mset (concat (map (\<lambda>(p, r). promotedBy p r S) (zip ps rs))) =
   mset (filter (promoted ps rs) S)"
proof (induction ps arbitrary: rs)
  case Nil
  then show ?case by (simp add: promoted_def resultFor_def)
next
  case (Cons p ps)
  show ?case
  proof (cases rs)
    case Nil
    then show ?thesis by (simp add: promoted_def resultFor_def)
  next
    case rs: (Cons r rs')
    have IH: "mset (concat (map (\<lambda>(p, r). promotedBy p r S) (zip ps rs'))) =
              mset (filter (promoted ps rs') S)"
      using Cons.IH[of rs'] Cons.prems by simp
    have none: "map_of (zip ps rs') p = None"
      using Cons.prems by (simp add: map_of_zip_notin)
    have "mset (filter (promoted (p # ps) (r # rs')) S)
        = mset (filter (\<lambda>op. opPair op = p \<and> r = Success (opNonceValue op)) S)
          + mset (filter (promoted ps rs') S)"
      using none by (induction S) (auto simp: promoted_def resultFor_def)
    then show ?thesis using IH rs by (simp add: promotedBy_filter)
  qed
qed

lemma map_promotedBy_zip:
  "distinct ps \<Longrightarrow> length ps \<le> length rs \<Longrightarrow>
   map (\<lambda>(p, r). promotedBy p r S) (zip ps rs) =
   map (\<lambda>p. filter (\<lambda>op. opPair op = p \<and> promoted ps rs op) S) ps"
proof (induction ps arbitrary: rs)
  case Nil
  then show ?case by simp
next
  case (Cons p ps)
  then obtain r rs' where rs: "rs = r # rs'" by (cases rs) auto
  have IH: "map (\<lambda>(p, r). promotedBy p r S) (zip ps rs') =
            map (\<lambda>p. filter (\<lambda>op. opPair op = p \<and> promoted ps rs' op) S) ps"
    using Cons rs by simp
  have "map (\<lambda>q. filter (\<lambda>op. opPair op = q \<and> promoted ps rs' op) S) ps
      = map (\<lambda>q. filter (\<lambda>op. opPair op = q \<and> promoted (p # ps) (r # rs') op) S) ps"
    using Cons.prems by (auto simp: promoted_def resultFor_def intro!: filter_cong)
  moreover have "promotedBy p r S =
      filter (\<lambda>op. opPair op = p \<and> promoted (p # ps) (r # rs') op) S"
    by (auto simp: promotedBy_filter promoted_def resultFor_def intro!: filter_cong)
  ultimately show ?case using IH rs by simp
qed

subsection \<open>The three outcomes of a reconciliation\<close>

lemma update_rejected:
  "multicall client (nonceContracts ep (allSendersAndNonceKeys (dumpOutstanding s))) = Inl e
   \<Longrightarrow> updateAvailableUserOperations client ep s = (Inl e, s)"
  by (simp add: updateAvailableUserOperations_def Let_def)

lemma update_short_answer:
  "multicall client (nonceContracts ep (allSendersAndNonceKeys (dumpOutstanding s))) = Inr rs
   \<Longrightarrow> length rs < length (allSendersAndNonceKeys (dumpOutstanding s))
   \<Longrightarrow> updateAvailableUserOperations client ep s = (Inl TypeError, s)"
  by (simp add: updateAvailableUserOperations_def Let_def promoteLoop_Inl)

lemma update_resolved:
  "multicall client (nonceContracts ep (allSendersAndNonceKeys (dumpOutstanding s))) = Inr rs
   \<Longrightarrow> length (allSendersAndNonceKeys (dumpOutstanding s)) \<le> length rs
   \<Longrightarrow> updateAvailableUserOperations client ep s =
       (Inr (), s\<lparr>avaiableOutstandingUserOperations :=
                   concat (map (\<lambda>(p, r). promotedBy p r (dumpOutstanding s))
                     (zip (allSendersAndNonceKeys (dumpOutstanding s)) rs))\<rparr>)"
  by (simp add: updateAvailableUserOperations_def Let_def promoteLoop_Inr)

subsection \<open>Evaluating the store on concrete inputs\<close>

lemmas store_defs = newMemoryStore_def addOutstanding_def addProcessing_def addSubmitted_def
  removeOutstanding_def removeProcessing_def removeSubmitted_def dumpOutstanding_def
  dumbAvailableOutstanding_def getNonceKeyAndValue_def getSenderNonceKeyPair_def
  parseSenderNonceKeyPair_def allSendersAndNonceKeys_def nonceContracts_def matchingOps_def
  updateAvailableUserOperations_def oracleClient_def offlineClient_def
  exampleOp_def splice1_def
  Let_def

lemma ex_run:
  "snd (updateAvailableUserOperations
          (oracleClient [((''0xA'', 0), Success 5), ((''0xB'', 0), Success 3)]) ''0xEP''
          (runCalls [AddOutstanding (exampleOp ''0xA'' 5 ''0x01''),
                     AddOutstanding (exampleOp ''0xB'' 3 ''0x02'')] newMemoryStore))
   = \<lparr>outstandingUserOperations = [exampleOp ''0xA'' 5 ''0x01'', exampleOp ''0xB'' 3 ''0x02''],
      avaiableOutstandingUserOperations = [exampleOp ''0xA'' 5 ''0x01'', exampleOp ''0xB'' 3 ''0x02''],
      processingUserOperations = [], submittedUserOperations = []\<rparr>"
  by (simp add: store_defs)

subsection \<open>C1: what a reconciliation promotes\<close>




subsection \<open>C2: available-outstanding stays within outstanding\<close>

lemma hashesOf_splice:
  assumes "findIndex (\<lambda>op. userOperationHash op = h) xs = Some i"
  shows "hashesOf (splice1 i xs) = hashesOf xs - {#h#}"
proof -
  from findIndex_Some_split[OF assms] obtain ys x zs where
    "xs = ys @ x # zs" "userOperationHash x = h" "splice1 i xs = ys @ zs" by blast
  then show ?thesis by (simp add: hashesOf_def)
qed

lemma hashesOf_notin:
  assumes "findIndex (\<lambda>op. userOperationHash op = h) xs = None"
  shows "h \<notin># hashesOf xs"
  using assms by (auto simp: findIndex_None_iff hashesOf_def)

lemma mset_sub_diff_notin: "h \<notin># A \<Longrightarrow> A \<subseteq># B \<Longrightarrow> A \<subseteq># B - {#h#}"
  by (auto simp: subseteq_mset_def not_in_iff)

lemma mset_sub_diff_both: "A \<subseteq># B \<Longrightarrow> A - {#h#} \<subseteq># B - {#h#}"
  by (auto simp: subseteq_mset_def intro: diff_le_mono)

lemma storeInv_removeOutstanding: "storeInv s \<Longrightarrow> storeInv (removeOutstanding h s)"
proof -
  assume inv: "storeInv s"
  show ?thesis
  proof (cases "findIndex (\<lambda>op. userOperationHash op = h) (outstandingUserOperations s)")
    case None
    then show ?thesis using inv by (simp add: removeOutstanding_def)
  next
    case out: (Some i)
    show ?thesis
    proof (cases "findIndex (\<lambda>op. userOperationHash op = h) (avaiableOutstandingUserOperations s)")
      case None
      from mset_sub_diff_notin[OF hashesOf_notin[OF None]] inv
      show ?thesis using out None hashesOf_splice[OF out]
        by (simp add: removeOutstanding_def storeInv_def)
    next
      case (Some j)
      from mset_sub_diff_both inv
      show ?thesis using out Some hashesOf_splice[OF out] hashesOf_splice[OF Some]
        by (simp add: removeOutstanding_def storeInv_def)
    qed
  qed
qed

lemma resume_after_start:
  "resumeUpdate (startUpdate client ep s) s = updateAvailableUserOperations client ep s"
  by (simp add: resumeUpdate_def startUpdate_def updateAvailableUserOperations_def Let_def
      split: sum.splits)

lemma resumeUpdate_available:
  assumes q: "queried p = allSendersAndNonceKeys (snapshot p)"
  shows "snd (resumeUpdate p s) = s
       \<or> (\<exists>new. snd (resumeUpdate p s) = s\<lparr>avaiableOutstandingUserOperations := new\<rparr>
              \<and> hashesOf new \<subseteq># hashesOf (snapshot p))"
proof (cases "answer p")
  case (Inl e)
  then show ?thesis by (simp add: resumeUpdate_def)
next
  case (Inr rs)
  show ?thesis
  proof (cases "length (queried p) \<le> length rs")
    case True
    let ?new = "concat (map (\<lambda>(q, r). promotedBy q r (snapshot p)) (zip (queried p) rs))"
    have "distinct (queried p)" unfolding q by (rule distinct_allSendersAndNonceKeys)
    then have "mset ?new \<subseteq># mset (snapshot p)"
      by (simp add: mset_concat_promoted)
    then have "hashesOf ?new \<subseteq># hashesOf (snapshot p)"
      unfolding hashesOf_def by (metis image_mset_subseteq_mono mset_map)
    moreover have "snd (resumeUpdate p s) = s\<lparr>avaiableOutstandingUserOperations := ?new\<rparr>"
      using Inr promoteLoop_Inr[OF True, of "snapshot p" "[]"] by (simp add: resumeUpdate_def)
    ultimately show ?thesis by blast
  next
    case False
    then have "promoteLoop (queried p) rs (snapshot p) [] = Inl TypeError"
      by (simp add: promoteLoop_Inl)
    then show ?thesis using Inr by (simp add: resumeUpdate_def)
  qed
qed

lemma list_all_splice1: "list_all P xs \<Longrightarrow> list_all P (splice1 i xs)"
  by (auto simp: splice1_def list_all_iff dest: in_set_takeD in_set_dropD)

lemma runInv_step:
  assumes inv: "runInv r"
    and quiet: "isRemoveOutstanding e \<Longrightarrow> pendingUpdates r = []"
  shows "runInv (stepRun e r)"
proof (cases e)
  case (Call c)
  show ?thesis
  proof (cases c)
    case (AddOutstanding op)
    have grow: "A \<subseteq># hashesOf (outstandingUserOperations (store r)) \<Longrightarrow>
        A \<subseteq># hashesOf (outstandingUserOperations (store r) @ [op])" for A
      unfolding hashesOf_def
      by (auto simp: subseteq_mset_def intro: le_SucI)
    show ?thesis using inv Call AddOutstanding grow
      by (auto simp: runInv_def storeInv_def addOutstanding_def list_all_iff)
  next
    case (RemoveOutstanding h)
    with Call quiet have "pendingUpdates r = []" by simp
    then show ?thesis using inv Call RemoveOutstanding
      by (simp add: runInv_def storeInv_removeOutstanding)
  qed (use inv Call in \<open>auto simp: runInv_def storeInv_def addProcessing_def addSubmitted_def
         removeProcessing_def removeSubmitted_def list_all_iff split: option.splits\<close>)
next
  case (UpdateStarts client ep)
  then show ?thesis using inv
    by (simp add: runInv_def startUpdate_def dumpOutstanding_def Let_def)
next
  case (UpdateResumes i)
  show ?thesis
  proof (cases "i < length (pendingUpdates r)")
    case False
    then show ?thesis using inv UpdateResumes by simp
  next
    case True
    let ?p = "pendingUpdates r ! i"
    from inv have all: "list_all (\<lambda>p. hashesOf (snapshot p) \<subseteq># hashesOf (outstandingUserOperations (store r))
                     \<and> queried p = allSendersAndNonceKeys (snapshot p)) (pendingUpdates r)"
      and sinv: "storeInv (store r)"
      by (simp_all add: runInv_def)
    from all True have p: "hashesOf (snapshot ?p) \<subseteq># hashesOf (outstandingUserOperations (store r))"
      "queried ?p = allSendersAndNonceKeys (snapshot ?p)"
      by (simp_all add: list_all_length)
    from resumeUpdate_available[OF p(2), of "store r"]
    have "storeInv (snd (resumeUpdate ?p (store r)))
        \<and> outstandingUserOperations (snd (resumeUpdate ?p (store r))) = outstandingUserOperations (store r)"
    proof
      assume "snd (resumeUpdate ?p (store r)) = store r"
      then show ?thesis using sinv by simp
    next
      assume "\<exists>new. snd (resumeUpdate ?p (store r)) = (store r)\<lparr>avaiableOutstandingUserOperations := new\<rparr>
              \<and> hashesOf new \<subseteq># hashesOf (snapshot ?p)"
      then obtain new where "snd (resumeUpdate ?p (store r)) = (store r)\<lparr>avaiableOutstandingUserOperations := new\<rparr>"
        "hashesOf new \<subseteq># hashesOf (snapshot ?p)" by blast
      then show ?thesis using p(1) by (auto simp: storeInv_def intro: subset_mset.order_trans)
    qed
    then show ?thesis using True UpdateResumes list_all_splice1[OF all, of i]
      by (simp add: runInv_def)
  qed
qed

lemma runInv_runEvents:
  "runInv r \<Longrightarrow> removalsQuiet es r \<Longrightarrow> runInv (runEvents es r)"
  by (induction es arbitrary: r) (simp_all add: runInv_step)

lemma runInv_new: "runInv newRun"
  by (simp add: runInv_def newRun_def storeInv_def newMemoryStore_def)

lemma storeInv_new: "storeInv newMemoryStore"
  by (simp add: storeInv_def newMemoryStore_def)

lemma storeInv_subset:
  "storeInv s \<Longrightarrow> set (map userOperationHash (dumbAvailableOutstanding s))
        \<subseteq> set (map userOperationHash (dumpOutstanding s))"
  unfolding storeInv_def hashesOf_def dumbAvailableOutstanding_def dumpOutstanding_def
  by (metis set_mset_mono set_mset_mset)

lemma removeOutstanding_available:
  assumes inv: "storeInv s"
    and h: "h \<in> set (map userOperationHash (dumbAvailableOutstanding s))"
  shows "\<exists>ys op zs. dumbAvailableOutstanding s = ys @ op # zs \<and> userOperationHash op = h
       \<and> h \<notin> set (map userOperationHash ys)
       \<and> dumbAvailableOutstanding (removeOutstanding h s) = ys @ zs"
proof -
  from h storeInv_subset[OF inv]
  have "h \<in> set (map userOperationHash (outstandingUserOperations s))"
    by (auto simp: dumpOutstanding_def)
  then obtain i where out: "findIndex (\<lambda>op. userOperationHash op = h) (outstandingUserOperations s) = Some i"
    by (cases "findIndex (\<lambda>op. userOperationHash op = h) (outstandingUserOperations s)")
       (auto simp: findIndex_None_iff)
  from h obtain j where av: "findIndex (\<lambda>op. userOperationHash op = h) (avaiableOutstandingUserOperations s) = Some j"
    by (cases "findIndex (\<lambda>op. userOperationHash op = h) (avaiableOutstandingUserOperations s)")
       (auto simp: findIndex_None_iff dumbAvailableOutstanding_def)
  from findIndex_Some_split[OF av] obtain ys x zs where
    "avaiableOutstandingUserOperations s = ys @ x # zs" "userOperationHash x = h"
    "\<forall>y\<in>set ys. userOperationHash y \<noteq> h" "splice1 j (avaiableOutstandingUserOperations s) = ys @ zs"
    by blast
  moreover have "dumbAvailableOutstanding (removeOutstanding h s) = splice1 j (avaiableOutstandingUserOperations s)"
    using out av by (simp add: removeOutstanding_def dumbAvailableOutstanding_def)
  ultimately show ?thesis
    by (intro exI[of _ ys] exI[of _ x] exI[of _ zs]) (auto simp: dumbAvailableOutstanding_def)
qed

lemma removeOutstanding_gone:
  assumes inv: "storeInv s"
    and d: "distinct (map userOperationHash (dumpOutstanding s))"
  shows "h \<notin> set (map userOperationHash (dumbAvailableOutstanding (removeOutstanding h s)))"
proof -
  have "storeInv (removeOutstanding h s)" by (rule storeInv_removeOutstanding[OF inv])
  from storeInv_subset[OF this]
  have sub: "set (map userOperationHash (dumbAvailableOutstanding (removeOutstanding h s)))
     \<subseteq> set (map userOperationHash (dumpOutstanding (removeOutstanding h s)))" .
  have "h \<notin> set (map userOperationHash (dumpOutstanding (removeOutstanding h s)))"
  proof (cases "findIndex (\<lambda>op. userOperationHash op = h) (outstandingUserOperations s)")
    case None
    then have "removeOutstanding h s = s" by (simp add: removeOutstanding_def)
    moreover have "h \<notin> set (map userOperationHash (outstandingUserOperations s))"
      using None by (auto simp: findIndex_None_iff)
    ultimately show ?thesis by (simp add: dumpOutstanding_def)
  next
    case (Some i)
    from findIndex_Some_split[OF Some] obtain ys x zs where
      *: "outstandingUserOperations s = ys @ x # zs" "userOperationHash x = h"
      "splice1 i (outstandingUserOperations s) = ys @ zs" by blast
    have "outstandingUserOperations (removeOutstanding h s) = ys @ zs"
      using Some * by (simp add: removeOutstanding_def Let_def split: option.splits)
    then show ?thesis using d * by (auto simp: dumpOutstanding_def)
  qed
  with sub show ?thesis by blast
qed

lemmas run_defs = newRun_def startUpdate_def resumeUpdate_def promotedBy_def

text \<open>
  \<^bold>\<open>C2\<close>, as stated, fails. \<open>updateAvailableUserOperations\<close> takes its snapshot of
  outstanding, awaits the multicall and only then assigns the new list, which it computed
  from the snapshot. A \<open>removeOutstanding\<close> that runs during the await takes the operation
  out of outstanding, and the assignment that follows puts it back into
  available-outstanding: one operation is queued, a reconciliation starts, the operation is
  removed, the reconciliation resumes. The hash \<open>0x01\<close> is then in available-outstanding
  and not in outstanding.
\<close>

theorem available_outside_outstanding_counterexample:
  "store (runEvents [Call (AddOutstanding (exampleOp ''0xA'' 5 ''0x01'')),
                     UpdateStarts (oracleClient [((''0xA'', 0), Success 5)]) ''0xEP'',
                     Call (RemoveOutstanding ''0x01''),
                     UpdateResumes 0] newRun)
     = \<lparr>outstandingUserOperations = [],
        avaiableOutstandingUserOperations = [exampleOp ''0xA'' 5 ''0x01''],
        processingUserOperations = [], submittedUserOperations = []\<rparr>
   \<and> userOperationHash (exampleOp ''0xA'' 5 ''0x01'') = ''0x01''"
  by (simp add: run_defs store_defs)

text \<open>
  \<^bold>\<open>C2\<close>, as amended. Take any finite run on a new store in which the calls of the six
  add and remove functions, the starts of reconciliations and their resumptions interleave
  in any way (\<open>clear\<close> excluded), provided that no \<open>removeOutstanding\<close> runs while a
  reconciliation awaits its multicall. After such a run every hash in available-outstanding
  is also in outstanding. If \<open>h\<close> is in available-outstanding, \<open>removeOutstanding h\<close> deletes
  the first entry with hash \<open>h\<close> from it and keeps the rest in order; when the hashes in
  outstanding are distinct, \<open>h\<close> is then gone from available-outstanding. Runs in which
  every reconciliation resumes right after it started, each call running to its end before
  the next, are among these.
\<close>

theorem available_hashes_within_outstanding:
  assumes quiet: "removalsQuiet events newRun"
  shows "set (map userOperationHash (dumbAvailableOutstanding (store (runEvents events newRun))))
     \<subseteq> set (map userOperationHash (dumpOutstanding (store (runEvents events newRun))))
   \<and> (h \<in> set (map userOperationHash
               (dumbAvailableOutstanding (store (runEvents events newRun))))
      \<longrightarrow> (\<exists>ys op zs.
             dumbAvailableOutstanding (store (runEvents events newRun)) = ys @ op # zs
           \<and> userOperationHash op = h \<and> h \<notin> set (map userOperationHash ys)
           \<and> dumbAvailableOutstanding
                (removeOutstanding h (store (runEvents events newRun))) = ys @ zs))
   \<and> (distinct (map userOperationHash (dumpOutstanding (store (runEvents events newRun))))
      \<longrightarrow> h \<notin> set (map userOperationHash
                  (dumbAvailableOutstanding
                     (removeOutstanding h (store (runEvents events newRun))))))"
proof -
  have "runInv (runEvents events newRun)"
    by (rule runInv_runEvents[OF runInv_new quiet])
  then have inv: "storeInv (store (runEvents events newRun))"
    by (simp add: runInv_def)
  show ?thesis
    using storeInv_subset[OF inv] removeOutstanding_available[OF inv, of h]
      removeOutstanding_gone[OF inv, of h]
    by blast
qed

lemma ex_events:
  "store (runEvents [Call (AddOutstanding (exampleOp ''0xA'' 5 ''0x01'')),
                     Call (AddOutstanding (exampleOp ''0xB'' 3 ''0x02'')),
                     UpdateStarts
                       (oracleClient [((''0xA'', 0), Success 5), ((''0xB'', 0), Success 3)])
                       ''0xEP'',
                     Call (AddOutstanding (exampleOp ''0xC'' 1 ''0x03'')),
                     UpdateResumes 0] newRun)
   = \<lparr>outstandingUserOperations =
        [exampleOp ''0xA'' 5 ''0x01'', exampleOp ''0xB'' 3 ''0x02'', exampleOp ''0xC'' 1 ''0x03''],
      avaiableOutstandingUserOperations =
        [exampleOp ''0xA'' 5 ''0x01'', exampleOp ''0xB'' 3 ''0x02''],
      processingUserOperations = [], submittedUserOperations = []\<rparr>"
  by (simp add: run_defs store_defs)

theorem available_hashes_within_outstanding_witness:
  "removalsQuiet [Call (AddOutstanding (exampleOp ''0xA'' 5 ''0x01'')),
                  Call (AddOutstanding (exampleOp ''0xB'' 3 ''0x02'')),
                  UpdateStarts
                    (oracleClient [((''0xA'', 0), Success 5), ((''0xB'', 0), Success 3)])
                    ''0xEP'',
                  Call (AddOutstanding (exampleOp ''0xC'' 1 ''0x03'')),
                  UpdateResumes 0] newRun
   \<and> ''0x01'' \<in> set (map userOperationHash (dumbAvailableOutstanding (store
        (runEvents [Call (AddOutstanding (exampleOp ''0xA'' 5 ''0x01'')),
                    Call (AddOutstanding (exampleOp ''0xB'' 3 ''0x02'')),
                    UpdateStarts
                      (oracleClient [((''0xA'', 0), Success 5), ((''0xB'', 0), Success 3)])
                      ''0xEP'',
                    Call (AddOutstanding (exampleOp ''0xC'' 1 ''0x03'')),
                    UpdateResumes 0] newRun))))
   \<and> distinct (map userOperationHash (dumpOutstanding (store
        (runEvents [Call (AddOutstanding (exampleOp ''0xA'' 5 ''0x01'')),
                    Call (AddOutstanding (exampleOp ''0xB'' 3 ''0x02'')),
                    UpdateStarts
                      (oracleClient [((''0xA'', 0), Success 5), ((''0xB'', 0), Success 3)])
                      ''0xEP'',
                    Call (AddOutstanding (exampleOp ''0xC'' 1 ''0x03'')),
                    UpdateResumes 0] newRun))))
   \<and> ''0x01'' \<notin> set (map userOperationHash (dumbAvailableOutstanding
        (removeOutstanding ''0x01'' (store
        (runEvents [Call (AddOutstanding (exampleOp ''0xA'' 5 ''0x01'')),
                    Call (AddOutstanding (exampleOp ''0xB'' 3 ''0x02'')),
                    UpdateStarts
                      (oracleClient [((''0xA'', 0), Success 5), ((''0xB'', 0), Success 3)])
                      ''0xEP'',
                    Call (AddOutstanding (exampleOp ''0xC'' 1 ''0x03'')),
                    UpdateResumes 0] newRun)))))"
proof -
  let ?es = "[Call (AddOutstanding (exampleOp ''0xA'' 5 ''0x01'')),
                    Call (AddOutstanding (exampleOp ''0xB'' 3 ''0x02'')),
                    UpdateStarts
                      (oracleClient [((''0xA'', 0), Success 5), ((''0xB'', 0), Success 3)])
                      ''0xEP'',
                    Call (AddOutstanding (exampleOp ''0xC'' 1 ''0x03'')),
                    UpdateResumes 0]"
  have q: "removalsQuiet ?es newRun" by simp
  have a: "''0x01'' \<in> set (map userOperationHash
      (dumbAvailableOutstanding (store (runEvents ?es newRun))))"
    unfolding ex_events by (simp add: dumbAvailableOutstanding_def exampleOp_def)
  have d: "distinct (map userOperationHash (dumpOutstanding (store (runEvents ?es newRun))))"
    unfolding ex_events by (simp add: dumpOutstanding_def exampleOp_def)
  from available_hashes_within_outstanding[OF q, of "''0x01''"] a d
  show ?thesis using q by blast
qed


subsection \<open>C3: the order of the published list\<close>

text \<open>
  The position at which a pair is first seen in the snapshot, \<open>pairFirstSeen\<close>, is stated
  on the snapshot alone. The list of queried pairs is increasing in it: the pairs are
  queried in the order in which they first occur among the outstanding operations.
\<close>

lemma setInsertionOrder_snoc:
  "setInsertionOrder acc (xs @ [x]) =
     (if x \<in> set (setInsertionOrder acc xs) then setInsertionOrder acc xs
      else setInsertionOrder acc xs @ [x])"
  by (induction xs arbitrary: acc) simp_all

lemma firstSeen_less:
  "p \<in> set xs \<Longrightarrow> length (takeWhile (\<lambda>q. q \<noteq> p) xs) < length xs"
  by (induction xs) auto

lemma firstSeen_nth:
  "p \<in> set xs \<Longrightarrow> xs ! length (takeWhile (\<lambda>q. q \<noteq> p) xs) = p"
  by (induction xs) auto

lemma firstSeen_append:
  "p \<in> set xs \<Longrightarrow>
   length (takeWhile (\<lambda>q. q \<noteq> p) (xs @ ys)) = length (takeWhile (\<lambda>q. q \<noteq> p) xs)"
  by (induction xs) auto

lemma firstSeen_new:
  "x \<notin> set xs \<Longrightarrow> length (takeWhile (\<lambda>q. q \<noteq> x) (xs @ [x])) = length xs"
  by (induction xs) auto

lemma setInsertionOrder_first_seen:
  "sorted_wrt (\<lambda>p q. length (takeWhile (\<lambda>r. r \<noteq> p) xs) < length (takeWhile (\<lambda>r. r \<noteq> q) xs))
     (setInsertionOrder [] xs)"
proof (induction xs rule: rev_induct)
  case Nil
  then show ?case by simp
next
  case (snoc x xs)
  let ?r = "setInsertionOrder [] xs"
  have set_r: "set ?r = set xs" by (simp add: set_setInsertionOrder)
  have old: "sorted_wrt (\<lambda>p q. length (takeWhile (\<lambda>r. r \<noteq> p) (xs @ [x]))
                            < length (takeWhile (\<lambda>r. r \<noteq> q) (xs @ [x]))) ?r"
    using snoc.IH
    by (rule sorted_wrt_mono_rel[rotated]) (simp add: set_r firstSeen_append)
  show ?case
  proof (cases "x \<in> set xs")
    case True
    then show ?thesis using old by (simp add: setInsertionOrder_snoc set_r)
  next
    case False
    have "\<forall>p\<in>set ?r. length (takeWhile (\<lambda>r. r \<noteq> p) (xs @ [x]))
                        < length (takeWhile (\<lambda>r. r \<noteq> x) (xs @ [x]))"
      using False by (simp add: set_r firstSeen_append firstSeen_new firstSeen_less)
    then show ?thesis using old False
      by (simp add: setInsertionOrder_snoc set_r sorted_wrt_append)
  qed
qed

lemma pairFirstSeen_map:
  "pairFirstSeen S p = length (takeWhile (\<lambda>q. q \<noteq> p) (map opPair S))"
  by (simp add: pairFirstSeen_def takeWhile_map comp_def)

lemma allSendersAndNonceKeys_first_seen:
  "sorted_wrt (\<lambda>p q. pairFirstSeen S p < pairFirstSeen S q) (allSendersAndNonceKeys S)"
proof -
  have "(\<lambda>op. getSenderNonceKeyPair (userOperation op)) = opPair"
    by (rule ext) (simp add: opPair_def)
  then have pairs: "allSendersAndNonceKeys S = setInsertionOrder [] (map opPair S)"
    unfolding allSendersAndNonceKeys_def by (simp add: parseSenderNonceKeyPair_id[abs_def])
  have seen: "(\<lambda>p q. pairFirstSeen S p < pairFirstSeen S q) =
      (\<lambda>p q. length (takeWhile (\<lambda>r. r \<noteq> p) (map opPair S))
             < length (takeWhile (\<lambda>r. r \<noteq> q) (map opPair S)))"
    by (simp only: pairFirstSeen_map)
  show ?thesis
    unfolding pairs seen by (rule setInsertionOrder_first_seen)
qed

lemma pairFirstSeen_inj:
  assumes "x \<in> set S" and "y \<in> set S"
    and eq: "pairFirstSeen S (opPair x) = pairFirstSeen S (opPair y)"
  shows "opPair x = opPair y"
proof -
  have x: "opPair x \<in> set (map opPair S)" and y: "opPair y \<in> set (map opPair S)"
    using assms by simp_all
  have "opPair x = map opPair S ! pairFirstSeen S (opPair x)"
    unfolding pairFirstSeen_map by (rule firstSeen_nth[OF x, symmetric])
  also have "\<dots> = map opPair S ! pairFirstSeen S (opPair y)"
    by (simp only: eq)
  also have "\<dots> = opPair y"
    unfolding pairFirstSeen_map by (rule firstSeen_nth[OF y])
  finally show ?thesis .
qed

lemma sorted_concat_groups:
  assumes "sorted_wrt (\<lambda>p q. f p < (f q :: nat)) ps"
    and key: "\<And>p x. x \<in> set (g p) \<Longrightarrow> k x = f p"
  shows "sorted (map k (concat (map g ps)))"
  using assms(1)
proof (induction ps)
  case Nil
  then show ?case by simp
next
  case (Cons p ps)
  have "map k (g p) = map (\<lambda>x. f p) (g p)"
    by (rule map_cong) (simp_all add: key)
  then have s1: "sorted (map k (g p))"
    by (simp add: map_replicate_const)
  have s2: "sorted (map k (concat (map g ps)))"
    using Cons by simp
  have le: "k x \<le> k y" if "x \<in> set (g p)" "q \<in> set ps" "y \<in> set (g q)" for x y q
  proof -
    have "f p < f q" using Cons.prems that(2) by simp
    then show ?thesis using key[OF that(1)] key[OF that(3)] by simp
  qed
  have "\<forall>a\<in>set (map k (g p)). \<forall>b\<in>set (map k (concat (map g ps))). a \<le> b"
    using le by auto
  then show ?case using s1 s2
    by (simp only: concat.simps list.map map_append sorted_append)
qed

text \<open>
  \<^bold>\<open>C3\<close>, as stated, fails. The published list does not keep the admission order of the
  snapshot: the loop runs over the pairs and collects, pair by pair, the matching
  operations. Sender \<open>0xA\<close> queues nonce 6 and later nonce 5, sender \<open>0xB\<close> queues nonce 3
  in between; the EntryPoint is at nonce 5 for \<open>0xA\<close> and 3 for \<open>0xB\<close>. The operation of
  \<open>0xA\<close> is published before the one of \<open>0xB\<close>, which was admitted earlier.
\<close>

theorem updateAvailable_admission_order_counterexample:
  "dumpOutstanding (runCalls [AddOutstanding (exampleOp ''0xA'' 6 ''0x01''),
                              AddOutstanding (exampleOp ''0xB'' 3 ''0x02''),
                              AddOutstanding (exampleOp ''0xA'' 5 ''0x03'')] newMemoryStore)
     = [exampleOp ''0xA'' 6 ''0x01'', exampleOp ''0xB'' 3 ''0x02'', exampleOp ''0xA'' 5 ''0x03'']
   \<and> updateAvailableUserOperations
       (oracleClient [((''0xA'', 0), Success 5), ((''0xB'', 0), Success 3)]) ''0xEP''
       (runCalls [AddOutstanding (exampleOp ''0xA'' 6 ''0x01''),
                  AddOutstanding (exampleOp ''0xB'' 3 ''0x02''),
                  AddOutstanding (exampleOp ''0xA'' 5 ''0x03'')] newMemoryStore)
     = (Inr (),
        \<lparr>outstandingUserOperations =
           [exampleOp ''0xA'' 6 ''0x01'', exampleOp ''0xB'' 3 ''0x02'', exampleOp ''0xA'' 5 ''0x03''],
         avaiableOutstandingUserOperations =
           [exampleOp ''0xA'' 5 ''0x03'', exampleOp ''0xB'' 3 ''0x02''],
         processingUserOperations = [], submittedUserOperations = []\<rparr>)
   \<and> \<not> subseq [exampleOp ''0xA'' 5 ''0x03'', exampleOp ''0xB'' 3 ''0x02'']
         [exampleOp ''0xA'' 6 ''0x01'', exampleOp ''0xB'' 3 ''0x02'', exampleOp ''0xA'' 5 ''0x03'']"
  by (simp add: store_defs)

text \<open>
  \<^bold>\<open>C3\<close>, as amended. The published list is grouped by \<open>(sender, nonceKey)\<close> pair: the
  groups follow one another in the order in which the pairs first occur in the snapshot,
  and each group holds the promoted operations of its pair in admission order. In terms of
  the snapshot alone: the published list is the list of promoted operations, in admission
  order, sorted stably by the position at which the operation's pair first occurs in the
  snapshot; two operations of the snapshot have the same such position exactly when they
  have the same pair. So two promoted operations of the same pair keep their relative
  admission order. The queried pairs, which give the groups, are the pairs of the
  snapshot, each once, by increasing position of first occurrence.
\<close>

theorem updateAvailable_groups_by_pair:
  assumes answer: "multicall client
                     (nonceContracts ep (allSendersAndNonceKeys (dumpOutstanding s))) = Inr results"
    and len: "length results = length (allSendersAndNonceKeys (dumpOutstanding s))"
  shows "\<exists>s'. updateAvailableUserOperations client ep s = (Inr (), s')
    \<and> dumbAvailableOutstanding s' =
        sort_key (\<lambda>op. pairFirstSeen (dumpOutstanding s) (opPair op))
          (filter (promoted (allSendersAndNonceKeys (dumpOutstanding s)) results)
             (dumpOutstanding s))
    \<and> sorted (map (\<lambda>op. pairFirstSeen (dumpOutstanding s) (opPair op))
                (dumbAvailableOutstanding s'))
    \<and> dumbAvailableOutstanding s' =
        concat (map (\<lambda>p. filter (\<lambda>op. opPair op = p
                       \<and> promoted (allSendersAndNonceKeys (dumpOutstanding s)) results op)
                     (dumpOutstanding s))
                 (allSendersAndNonceKeys (dumpOutstanding s)))
    \<and> distinct (allSendersAndNonceKeys (dumpOutstanding s))
    \<and> set (allSendersAndNonceKeys (dumpOutstanding s)) = opPair ` set (dumpOutstanding s)
    \<and> sorted_wrt (\<lambda>p q. pairFirstSeen (dumpOutstanding s) p < pairFirstSeen (dumpOutstanding s) q)
          (allSendersAndNonceKeys (dumpOutstanding s))
    \<and> (\<forall>x\<in>set (dumpOutstanding s). \<forall>y\<in>set (dumpOutstanding s).
          pairFirstSeen (dumpOutstanding s) (opPair x)
            = pairFirstSeen (dumpOutstanding s) (opPair y)
          \<longleftrightarrow> opPair x = opPair y)
    \<and> (\<forall>p. filter (\<lambda>op. opPair op = p) (dumbAvailableOutstanding s') =
            filter (\<lambda>op. opPair op = p
                       \<and> promoted (allSendersAndNonceKeys (dumpOutstanding s)) results op)
              (dumpOutstanding s))
    \<and> (\<forall>p. subseq (filter (\<lambda>op. opPair op = p) (dumbAvailableOutstanding s'))
            (dumpOutstanding s))"
proof -
  let ?S = "dumpOutstanding s"
  let ?ps = "allSendersAndNonceKeys ?S"
  let ?key = "\<lambda>op. pairFirstSeen ?S (opPair op)"
  let ?new = "concat (map (\<lambda>(p, r). promotedBy p r ?S) (zip ?ps results))"
  let ?s' = "s\<lparr>avaiableOutstandingUserOperations := ?new\<rparr>"
  have run: "updateAvailableUserOperations client ep s = (Inr (), ?s')"
    using update_resolved[OF answer] len by simp
  have avail: "dumbAvailableOutstanding ?s' = ?new"
    by (simp add: dumbAvailableOutstanding_def)
  have groups: "?new =
      concat (map (\<lambda>p. filter (\<lambda>op. opPair op = p \<and> promoted ?ps results op) ?S) ?ps)"
    using map_promotedBy_zip[OF distinct_allSendersAndNonceKeys, of ?S results ?S] len by simp
  have b: "filter (\<lambda>op. opPair op = p) ?new
      = filter (\<lambda>op. opPair op = p \<and> promoted ?ps results op) ?S" for p
    by (rule filter_pair_concat[OF distinct_allSendersAndNonceKeys])
  have c: "subseq (filter (\<lambda>op. opPair op = p) ?new) ?S" for p
    unfolding b by simp
  have m: "mset ?new = mset (filter (promoted ?ps results) ?S)"
    by (rule mset_concat_promoted[OF distinct_allSendersAndNonceKeys])
  have in_S: "x \<in> set ?S" if "x \<in> set ?new" for x
  proof -
    from that have "x \<in># mset ?new" by simp
    then have "x \<in># mset (filter (promoted ?ps results) ?S)" unfolding m .
    then show ?thesis by simp
  qed
  have inj: "?key x = ?key y \<longleftrightarrow> opPair x = opPair y" if "x \<in> set ?S" "y \<in> set ?S" for x y
    using pairFirstSeen_inj[OF that] by auto
  have srt: "sorted (map ?key ?new)"
    unfolding groups
    by (rule sorted_concat_groups[OF allSendersAndNonceKeys_first_seen]) simp
  have same_key: "filter (\<lambda>x. ?key k = ?key x) ?new
      = filter (\<lambda>x. ?key k = ?key x) (filter (promoted ?ps results) ?S)"
    if k: "k \<in> set ?new" for k
  proof -
    have "filter (\<lambda>x. ?key k = ?key x) ?new = filter (\<lambda>x. opPair x = opPair k) ?new"
      by (rule filter_cong) (use inj[OF in_S[OF k] in_S] in auto)
    also have "\<dots> = filter (\<lambda>op. opPair op = opPair k \<and> promoted ?ps results op) ?S"
      by (rule b)
    also have "\<dots> = filter (\<lambda>x. ?key k = ?key x) (filter (promoted ?ps results) ?S)"
      unfolding filter_filter
      by (rule filter_cong) (use inj[OF in_S[OF k]] in auto)
    finally show ?thesis .
  qed
  have sorted_eq: "?new = sort_key ?key (filter (promoted ?ps results) ?S)"
    by (rule properties_for_sort_key[OF m same_key srt, symmetric])
  show ?thesis
    apply (rule exI[of _ ?s'])
    unfolding avail
    using run sorted_eq srt groups inj b c distinct_allSendersAndNonceKeys[of ?S]
      set_allSendersAndNonceKeys[of ?S] allSendersAndNonceKeys_first_seen[of ?S]
    by blast
qed

theorem updateAvailable_groups_by_pair_witness:
  "multicall (oracleClient [((''0xA'', 0), Success 5), ((''0xB'', 0), Success 3)])
     (nonceContracts ''0xEP'' (allSendersAndNonceKeys (dumpOutstanding
        (runCalls [AddOutstanding (exampleOp ''0xA'' 6 ''0x01''),
                   AddOutstanding (exampleOp ''0xB'' 3 ''0x02''),
                   AddOutstanding (exampleOp ''0xA'' 5 ''0x03'')] newMemoryStore))))
     = Inr [Success 5, Success 3]
   \<and> length [Success 5, Success 3] = length (allSendersAndNonceKeys (dumpOutstanding
        (runCalls [AddOutstanding (exampleOp ''0xA'' 6 ''0x01''),
                   AddOutstanding (exampleOp ''0xB'' 3 ''0x02''),
                   AddOutstanding (exampleOp ''0xA'' 5 ''0x03'')] newMemoryStore)))
   \<and> dumbAvailableOutstanding (snd (updateAvailableUserOperations
        (oracleClient [((''0xA'', 0), Success 5), ((''0xB'', 0), Success 3)]) ''0xEP''
        (runCalls [AddOutstanding (exampleOp ''0xA'' 6 ''0x01''),
                   AddOutstanding (exampleOp ''0xB'' 3 ''0x02''),
                   AddOutstanding (exampleOp ''0xA'' 5 ''0x03'')] newMemoryStore)))
      = [exampleOp ''0xA'' 5 ''0x03'', exampleOp ''0xB'' 3 ''0x02'']
   \<and> pairFirstSeen
        [exampleOp ''0xA'' 6 ''0x01'', exampleOp ''0xB'' 3 ''0x02'', exampleOp ''0xA'' 5 ''0x03'']
        (''0xA'', 0) = 0
   \<and> pairFirstSeen
        [exampleOp ''0xA'' 6 ''0x01'', exampleOp ''0xB'' 3 ''0x02'', exampleOp ''0xA'' 5 ''0x03'']
        (''0xB'', 0) = 1"
proof -
  let ?c = "oracleClient [((''0xA'', 0), Success 5), ((''0xB'', 0), Success 3)]"
  let ?s = "runCalls [AddOutstanding (exampleOp ''0xA'' 6 ''0x01''),
                   AddOutstanding (exampleOp ''0xB'' 3 ''0x02''),
                   AddOutstanding (exampleOp ''0xA'' 5 ''0x03'')] newMemoryStore"
  let ?S = "[exampleOp ''0xA'' 6 ''0x01'', exampleOp ''0xB'' 3 ''0x02'', exampleOp ''0xA'' 5 ''0x03'']"
  have S: "dumpOutstanding ?s = ?S"
    by (simp add: dumpOutstanding_def addOutstanding_def newMemoryStore_def)
  have ps: "allSendersAndNonceKeys (dumpOutstanding ?s) = [(''0xA'', 0), (''0xB'', 0)]"
    unfolding S
    by (simp add: allSendersAndNonceKeys_def getSenderNonceKeyPair_def getNonceKeyAndValue_def
        exampleOp_def parseSenderNonceKeyPair_def)
  have h1: "multicall ?c (nonceContracts ''0xEP'' (allSendersAndNonceKeys (dumpOutstanding ?s)))
     = Inr [Success 5, Success 3]"
    unfolding ps by (simp add: oracleClient_def nonceContracts_def)
  have h2: "length [Success 5, Success 3] = length (allSendersAndNonceKeys (dumpOutstanding ?s))"
    unfolding ps by simp
  have k1: "pairFirstSeen ?S (''0xA'', 0) = 0" and k2: "pairFirstSeen ?S (''0xB'', 0) = 1"
    by (simp_all add: pairFirstSeen_def opPair_def getSenderNonceKeyPair_def
        getNonceKeyAndValue_def exampleOp_def)
  from updateAvailable_groups_by_pair[OF h1 h2]
  have "dumbAvailableOutstanding (snd (updateAvailableUserOperations ?c ''0xEP'' ?s))
     = sort_key (\<lambda>op. pairFirstSeen (dumpOutstanding ?s) (opPair op))
          (filter (promoted (allSendersAndNonceKeys (dumpOutstanding ?s)) [Success 5, Success 3])
             (dumpOutstanding ?s))"
    by auto
  also have "\<dots> = [exampleOp ''0xA'' 5 ''0x03'', exampleOp ''0xB'' 3 ''0x02'']"
    unfolding ps unfolding S
    by (simp add: promoted_def resultFor_def opPair_def opNonceValue_def pairFirstSeen_def
        getSenderNonceKeyPair_def getNonceKeyAndValue_def exampleOp_def)
  finally show ?thesis using h1 h2 k1 k2 by blast
qed


subsection \<open>C4: a multicall that rejects\<close>

text \<open>
  The same holds at the resumption of a reconciliation whose multicall rejected, whatever
  the store has become during the await.
\<close>

lemma resumeUpdate_rejected: "answer p = Inl e \<Longrightarrow> resumeUpdate p s = (Inl e, s)"
  by (simp add: resumeUpdate_def)

text \<open>
  \<^bold>\<open>C4.\<close> If the multicall rejects with \<open>e\<close>, the reconciliation rejects with \<open>e\<close> and the
  store, all four lists, is the one before the call.
\<close>

theorem updateAvailable_multicall_rejects:
  "multicall client (nonceContracts ep (allSendersAndNonceKeys (dumpOutstanding s))) = Inl e
   \<Longrightarrow> updateAvailableUserOperations client ep s = (Inl e, s)"
proof -
  assume rejects: "multicall client
      (nonceContracts ep (allSendersAndNonceKeys (dumpOutstanding s))) = Inl e"
  have "updateAvailableUserOperations client ep s =
      (case multicall client (nonceContracts ep (allSendersAndNonceKeys (dumpOutstanding s))) of
         Inl e \<Rightarrow> (Inl e, s)
       | Inr results \<Rightarrow>
           (case promoteLoop (allSendersAndNonceKeys (dumpOutstanding s)) results
                   (dumpOutstanding s) [] of
              Inl e \<Rightarrow> (Inl e, s)
            | Inr availableOutstandingOps \<Rightarrow>
                (Inr (), s\<lparr>avaiableOutstandingUserOperations := availableOutstandingOps\<rparr>)))"
    by (simp add: updateAvailableUserOperations_def Let_def)
  also have "\<dots> = (Inl e, s)"
    by (simp add: rejects)
  finally show ?thesis .
qed

theorem updateAvailable_multicall_rejects_witness:
  "multicall (failingClient (ExternalError ''timeout''))
     (nonceContracts ''0xEP'' (allSendersAndNonceKeys (dumpOutstanding
       (snd (updateAvailableUserOperations
          (oracleClient [((''0xA'', 0), Success 5), ((''0xB'', 0), Success 3)]) ''0xEP''
          (runCalls [AddOutstanding (exampleOp ''0xA'' 5 ''0x01''),
                     AddOutstanding (exampleOp ''0xB'' 3 ''0x02'')] newMemoryStore))))))
     = Inl (ExternalError ''timeout'')
   \<and> updateAvailableUserOperations (failingClient (ExternalError ''timeout'')) ''0xEP''
       (snd (updateAvailableUserOperations
          (oracleClient [((''0xA'', 0), Success 5), ((''0xB'', 0), Success 3)]) ''0xEP''
          (runCalls [AddOutstanding (exampleOp ''0xA'' 5 ''0x01''),
                     AddOutstanding (exampleOp ''0xB'' 3 ''0x02'')] newMemoryStore)))
     = (Inl (ExternalError ''timeout''),
        \<lparr>outstandingUserOperations = [exampleOp ''0xA'' 5 ''0x01'', exampleOp ''0xB'' 3 ''0x02''],
         avaiableOutstandingUserOperations = [exampleOp ''0xA'' 5 ''0x01'', exampleOp ''0xB'' 3 ''0x02''],
         processingUserOperations = [], submittedUserOperations = []\<rparr>)"
proof -
  have h: "multicall (failingClient (ExternalError ''timeout'')) cs = Inl (ExternalError ''timeout'')" for cs
    by (simp add: failingClient_def)
  from updateAvailable_multicall_rejects[OF h] h show ?thesis
    unfolding ex_run by blast
qed


section \<open>Properties of the gas price manager\<close>

subsection \<open>Truncating division\<close>

lemma bigintDiv_nonneg: "0 \<le> a \<Longrightarrow> 0 < b \<Longrightarrow> bigintDiv a b = a div b"
  by (cases "a = 0") (simp_all add: bigintDiv_def)

lemma bigintDiv_mono: "a \<le> a' \<Longrightarrow> 0 < b \<Longrightarrow> bigintDiv a b \<le> bigintDiv a' b"
proof -
  assume le: "a \<le> a'" and b: "0 < b"
  have neg: "bigintDiv x b = - ((- x) div b)" if "x \<le> 0" for x
    using that b by (cases "x = 0") (simp_all add: bigintDiv_def)
  have pos: "bigintDiv x b = x div b" if "0 \<le> x" for x
    using that b by (rule bigintDiv_nonneg)
  consider "0 \<le> a" | "a < 0" "0 \<le> a'" | "a < 0" "a' < 0" by linarith
  then show ?thesis
  proof cases
    case 1
    then show ?thesis using le b by (simp add: pos zdiv_mono1)
  next
    case 2
    have "bigintDiv a b \<le> 0" using 2 b neg[of a] by (simp add: pos_imp_zdiv_nonneg_iff)
    moreover have "0 \<le> bigintDiv a' b" using 2 b pos[of a'] by (simp add: pos_imp_zdiv_nonneg_iff)
    ultimately show ?thesis by linarith
  next
    case 3
    have "(- a') div b \<le> (- a) div b" using le b by (simp add: zdiv_mono1)
    then show ?thesis using 3 neg[of a] neg[of a'] by simp
  qed
qed

lemma bigintDiv_minus: "0 \<le> a \<Longrightarrow> 0 < b \<Longrightarrow> bigintDiv (- a) b = - bigintDiv a b"
  by (cases "a = 0") (simp_all add: bigintDiv_def)

lemma bigintDiv_nonneg_result: "0 \<le> a \<Longrightarrow> 0 < b \<Longrightarrow> 0 \<le> bigintDiv a b"
  by (simp add: bigintDiv_nonneg pos_imp_zdiv_nonneg_iff)

subsection \<open>Evaluating the manager on concrete inputs\<close>

lemmas chain_defs = polygon_id_def polygonMumbai_id_def celo_id_def celoAlfajores_id_def
  dfk_id_def avalanche_id_def MIN_POLYGON_GAS_PRICE_def MIN_MUMBAI_GAS_PRICE_def

lemmas example_defs = exampleConfig_def offlineClient_def

subsection \<open>C5: the bump and the floors\<close>

text \<open>
  \<^bold>\<open>C5\<close>, as stated, fails: the fees are not multiplied first and floored afterwards.
  On Polygon with a bump of 120 and both fees at 10 gwei the source returns 37.2 gwei for
  both: the floor of 31 gwei is applied first and then bumped. Multiplying first and
  flooring afterwards, as the claim says, gives 31 gwei.
\<close>

theorem bumpTheGasPrice_order_counterexample:
  "bumpTheGasPrice (exampleConfig 137 120)
     \<lparr>maxFeePerGas = 10000000000, maxPriorityFeePerGas = 10000000000\<rparr>
     = \<lparr>maxFeePerGas = 37200000000, maxPriorityFeePerGas = 37200000000\<rparr>
   \<and> bumpThenFloor (exampleConfig 137 120)
     \<lparr>maxFeePerGas = 10000000000, maxPriorityFeePerGas = 10000000000\<rparr>
     = \<lparr>maxFeePerGas = 31000000000, maxPriorityFeePerGas = 31000000000\<rparr>
   \<and> bumpTheGasPrice (exampleConfig 137 120)
     \<lparr>maxFeePerGas = 10000000000, maxPriorityFeePerGas = 10000000000\<rparr>
     \<noteq> bumpThenFloor (exampleConfig 137 120)
     \<lparr>maxFeePerGas = 10000000000, maxPriorityFeePerGas = 10000000000\<rparr>"
  by (simp add: bumpTheGasPrice_def bumpThenFloor_def getDefaultGasFee_def maxBigInt_def
      bigintDiv_def chain_defs example_defs Let_def)

text \<open>
  \<^bold>\<open>C5\<close>, as amended. On a chain without an override (any chain but Celo,
  Celo-Alfajores, DFK and Avalanche) \<open>bumpTheGasPrice\<close> first applies the floors, the
  priority fee to at least the chain floor (31 gwei on Polygon, 1 gwei on Mumbai, 0
  elsewhere) and the max fee to at least the floored priority fee, and then multiplies both
  by \<open>gasPriceBump / 100\<close> in truncating bigint division. The two orders agree when the
  bump is at least 100 and the input already respects the floors; so the example of the
  claim holds: on Polygon with a bump of 120, 50 gwei and 40 gwei become 60 gwei and 48 gwei.
\<close>

theorem bumpTheGasPrice_floors_then_bumps:
  "(chainId (publicClient config) \<notin> {celo_id, celoAlfajores_id, dfk_id, avalanche_id} \<longrightarrow>
      bumpTheGasPrice config gasPrice =
        \<lparr>maxFeePerGas =
           bigintDiv (max (maxFeePerGas gasPrice)
                        (max (maxPriorityFeePerGas gasPrice) (getDefaultGasFee config))
                      * gasPriceBump config) 100,
         maxPriorityFeePerGas =
           bigintDiv (max (maxPriorityFeePerGas gasPrice) (getDefaultGasFee config)
                      * gasPriceBump config) 100\<rparr>)
   \<and> getDefaultGasFee config =
       (if chainId (publicClient config) = 137 then 31 * 10 ^ 9
        else if chainId (publicClient config) = 80001 then 1 * 10 ^ 9 else 0)
   \<and> (chainId (publicClient config) \<notin> {celo_id, celoAlfajores_id, dfk_id, avalanche_id}
      \<and> 100 \<le> gasPriceBump config
      \<and> getDefaultGasFee config \<le> maxPriorityFeePerGas gasPrice
      \<and> maxPriorityFeePerGas gasPrice \<le> maxFeePerGas gasPrice \<longrightarrow>
      bumpTheGasPrice config gasPrice = bumpThenFloor config gasPrice)
   \<and> bumpTheGasPrice (exampleConfig 137 120)
       \<lparr>maxFeePerGas = 50000000000, maxPriorityFeePerGas = 40000000000\<rparr>
       = \<lparr>maxFeePerGas = 60000000000, maxPriorityFeePerGas = 48000000000\<rparr>"
proof -
  let ?floor = "getDefaultGasFee config"
  let ?b = "gasPriceBump config"
  let ?p = "maxPriorityFeePerGas gasPrice"
  let ?f = "maxFeePerGas gasPrice"
  have general: "bumpTheGasPrice config gasPrice =
        \<lparr>maxFeePerGas = bigintDiv (max ?f (max ?p ?floor) * ?b) 100,
         maxPriorityFeePerGas = bigintDiv (max ?p ?floor * ?b) 100\<rparr>"
    if "chainId (publicClient config) \<notin> {celo_id, celoAlfajores_id, dfk_id, avalanche_id}"
    using that by (simp add: bumpTheGasPrice_def maxBigInt_def Let_def)
  have floor: "?floor = (if chainId (publicClient config) = 137 then 31 * 10 ^ 9
        else if chainId (publicClient config) = 80001 then 1 * 10 ^ 9 else 0)"
    by (simp add: getDefaultGasFee_def chain_defs)
  have agree: "bumpTheGasPrice config gasPrice = bumpThenFloor config gasPrice"
    if chain: "chainId (publicClient config) \<notin> {celo_id, celoAlfajores_id, dfk_id, avalanche_id}"
      and b: "100 \<le> ?b" and p: "?floor \<le> ?p" and f: "?p \<le> ?f"
  proof -
    have floor0: "0 \<le> ?floor" by (simp add: getDefaultGasFee_def chain_defs)
    have p0: "0 \<le> ?p" using floor0 p by linarith
    have "?p * 100 \<le> ?p * ?b" using p0 b by (simp add: mult_left_mono)
    from zdiv_mono1[OF this, of 100] have "?p \<le> (?p * ?b) div 100" by simp
    then have pb: "?floor \<le> bigintDiv (?p * ?b) 100"
      using p p0 b by (simp add: bigintDiv_nonneg)
    have "?p * ?b \<le> ?f * ?b" using f b by (simp add: mult_right_mono)
    then have fb: "bigintDiv (?p * ?b) 100 \<le> bigintDiv (?f * ?b) 100"
      by (simp add: bigintDiv_mono)
    show ?thesis
      using general[OF chain] p f pb fb by (simp add: bumpThenFloor_def Let_def max_def)
  qed
  have example: "bumpTheGasPrice (exampleConfig 137 120)
       \<lparr>maxFeePerGas = 50000000000, maxPriorityFeePerGas = 40000000000\<rparr>
       = \<lparr>maxFeePerGas = 60000000000, maxPriorityFeePerGas = 48000000000\<rparr>"
    by (simp add: bumpTheGasPrice_def getDefaultGasFee_def maxBigInt_def
      bigintDiv_def chain_defs example_defs Let_def)
  show ?thesis using general floor agree example by blast
qed

theorem bumpTheGasPrice_floors_then_bumps_witness:
  "chainId (publicClient (exampleConfig 80001 150)) \<notin> {celo_id, celoAlfajores_id, dfk_id, avalanche_id}
   \<and> bumpTheGasPrice (exampleConfig 80001 150) \<lparr>maxFeePerGas = 10, maxPriorityFeePerGas = 20\<rparr>
     = \<lparr>maxFeePerGas = 1500000000, maxPriorityFeePerGas = 1500000000\<rparr>"
proof -
  have h: "chainId (publicClient (exampleConfig 80001 150)) \<notin> {celo_id, celoAlfajores_id, dfk_id, avalanche_id}"
    by (simp add: example_defs chain_defs)
  from bumpTheGasPrice_floors_then_bumps[of "exampleConfig 80001 150" "\<lparr>maxFeePerGas = 10, maxPriorityFeePerGas = 20\<rparr>"] h
  have "bumpTheGasPrice (exampleConfig 80001 150) \<lparr>maxFeePerGas = 10, maxPriorityFeePerGas = 20\<rparr>
     = \<lparr>maxFeePerGas = bigintDiv (max 10 (max 20 (getDefaultGasFee (exampleConfig 80001 150))) * gasPriceBump (exampleConfig 80001 150)) 100,
         maxPriorityFeePerGas = bigintDiv (max 20 (getDefaultGasFee (exampleConfig 80001 150)) * gasPriceBump (exampleConfig 80001 150)) 100\<rparr>"
    by simp
  also have "\<dots> = \<lparr>maxFeePerGas = 1500000000, maxPriorityFeePerGas = 1500000000\<rparr>"
    by (simp add: getDefaultGasFee_def bigintDiv_def chain_defs example_defs)
  finally show ?thesis using h by blast
qed

subsection \<open>C6: the next base fee\<close>

text \<open>
  \<^bold>\<open>C6.\<close> Below the gas target the source does not lower the base fee: its delta is
  computed from \<open>currentGasUsed - gasTarget\<close>, which is negative there, and then
  subtracted. For a block with base fee 1000, no gas used and a gas limit of 200 the source
  returns 1125, where the formula of the claim gives 875.
\<close>

theorem getNextBaseFee_below_target_raises:
  "getNextBaseFee (blockConfig 1000 0 200) = Inr 1125
   \<and> nextBaseFeeFormula 1000 0 200 = 875"
  by (simp add: getNextBaseFee_def nextBaseFeeFormula_def bigintDiv_def maxBigInt_def
      blockConfig_def example_defs Let_def)

text \<open>At or above the target the source and the formula agree (for a base fee that is not
  zero and a target that is not zero); below the target the source adds what the formula
  subtracts.\<close>

lemma getNextBaseFee_at_or_above_target:
  assumes "b \<noteq> 0" and "bigintDiv l 2 \<le> u" and "bigintDiv l 2 \<noteq> 0"
  shows "getNextBaseFee (blockConfig b u l) = Inr (nextBaseFeeFormula b u l)"
  using assms
  by (auto simp: getNextBaseFee_def nextBaseFeeFormula_def maxBigInt_def blockConfig_def example_defs Let_def)

lemma getNextBaseFee_below_target:
  assumes "0 < b" and "0 \<le> u" and "u < bigintDiv l 2"
  shows "getNextBaseFee (blockConfig b u l) =
         Inr (b + bigintDiv (bigintDiv (b * (bigintDiv l 2 - u)) (bigintDiv l 2)) 8)"
proof -
  define t where "t = bigintDiv l 2"
  define x where "x = b * (t - u)"
  have t: "0 < t" and ut: "u < t" using assms by (simp_all add: t_def)
  have x0: "0 \<le> x" using assms ut by (simp add: x_def)
  have "b * (u - t) = - x" by (simp add: x_def algebra_simps)
  then have 1: "bigintDiv (b * (u - t)) t = - bigintDiv x t"
    using x0 t by (simp add: bigintDiv_minus)
  have 2: "bigintDiv (- bigintDiv x t) 8 = - bigintDiv (bigintDiv x t) 8"
    using bigintDiv_nonneg_result[OF x0 t] by (simp add: bigintDiv_minus)
  have "getNextBaseFee (blockConfig b u l) =
        Inr (b - bigintDiv (bigintDiv (b * (u - t)) t) 8)"
    using assms t ut unfolding t_def
    by (simp add: getNextBaseFee_def blockConfig_def example_defs Let_def)
  then show ?thesis unfolding 1 2 by (simp add: x_def t_def)
qed

subsection \<open>C7: validating a proposed price\<close>

lemma foldl_minBigInt:
  "foldl (\<lambda>acc cur. minBigInt (fee cur) acc) a q = Min (insert a (fee ` set q))"
proof (induction q arbitrary: a)
  case Nil
  then show ?case by simp
next
  case (Cons e q)
  have "Min (insert (minBigInt (fee e) a) (fee ` set q))
      = Min (insert a (insert (fee e) (fee ` set q)))"
  proof (cases "q = []")
    case True
    then show ?thesis by (simp add: minBigInt_def min.commute)
  next
    case False
    then have ne: "fee ` set q \<noteq> {}" by simp
    have fin: "finite (fee ` set q)" by simp
    show ?thesis
      using ne fin by (simp add: minBigInt_def min.commute min.left_commute)
  qed
  then show ?case using Cons.IH[of "minBigInt (fee e) a"] by simp
qed

lemma reduce_min_window:
  "q = first # rest \<Longrightarrow>
   foldl (\<lambda>acc cur. minBigInt (fee cur) acc) (fee first) q = Min (fee ` set q)"
  unfolding foldl_minBigInt by (simp add: insert_absorb)

lemma getMinMaxFeePerGas_nonempty:
  "queueMaxFeePerGas state \<noteq> [] \<Longrightarrow>
   getMinMaxFeePerGas env config state = (Inr (Min (fee ` set (queueMaxFeePerGas state))), state)"
proof -
  assume "queueMaxFeePerGas state \<noteq> []"
  then obtain first rest where q: "queueMaxFeePerGas state = first # rest"
    by (cases "queueMaxFeePerGas state") auto
  show ?thesis
    unfolding getMinMaxFeePerGas_def using q reduce_min_window[OF q] by simp
qed

lemma getMinMaxPriorityFeePerGas_nonempty:
  "queueMaxPriorityFeePerGas state \<noteq> [] \<Longrightarrow>
   getMinMaxPriorityFeePerGas env config state =
     (Inr (Min (fee ` set (queueMaxPriorityFeePerGas state))), state)"
proof -
  assume "queueMaxPriorityFeePerGas state \<noteq> []"
  then obtain first rest where q: "queueMaxPriorityFeePerGas state = first # rest"
    by (cases "queueMaxPriorityFeePerGas state") auto
  show ?thesis
    unfolding getMinMaxPriorityFeePerGas_def using q reduce_min_window[OF q] by simp
qed

text \<open>
  \<^bold>\<open>C7.\<close> With both fee windows non-empty, \<open>validateGasPrice\<close> resolves exactly when
  the proposed max fee is at least the minimum of the max-fee window and the proposed
  priority fee is at least the minimum of the priority-fee window, both minima divided by
  \<open>10\<^sup>9\<close> on Hedera. Otherwise it rejects with the error that carries the violated
  minimum and the proposed value, the max fee being checked first. The state is untouched.
\<close>

theorem validateGasPrice_accepts_iff:
  assumes "queueMaxFeePerGas state \<noteq> []" and "queueMaxPriorityFeePerGas state \<noteq> []"
  shows "(fst (validateGasPrice env config state gasPrice) = Inr () \<longleftrightarrow>
            windowMinimum config (queueMaxFeePerGas state) \<le> maxFeePerGas gasPrice
          \<and> windowMinimum config (queueMaxPriorityFeePerGas state)
              \<le> maxPriorityFeePerGas gasPrice)
    \<and> (maxFeePerGas gasPrice < windowMinimum config (queueMaxFeePerGas state) \<longrightarrow>
          fst (validateGasPrice env config state gasPrice)
            = Inl (MaxFeePerGasTooLow (windowMinimum config (queueMaxFeePerGas state))
                     (maxFeePerGas gasPrice)))
    \<and> (windowMinimum config (queueMaxFeePerGas state) \<le> maxFeePerGas gasPrice
        \<and> maxPriorityFeePerGas gasPrice
            < windowMinimum config (queueMaxPriorityFeePerGas state) \<longrightarrow>
          fst (validateGasPrice env config state gasPrice)
            = Inl (MaxPriorityFeePerGasTooLow
                     (windowMinimum config (queueMaxPriorityFeePerGas state))
                     (maxPriorityFeePerGas gasPrice)))
    \<and> snd (validateGasPrice env config state gasPrice) = state"
proof -
  define lowF where "lowF = windowMinimum config (queueMaxFeePerGas state)"
  define lowP where "lowP = windowMinimum config (queueMaxPriorityFeePerGas state)"
  have run: "validateGasPrice env config state gasPrice =
      (if maxFeePerGas gasPrice < lowF
       then (Inl (MaxFeePerGasTooLow lowF (maxFeePerGas gasPrice)), state)
       else if maxPriorityFeePerGas gasPrice < lowP
       then (Inl (MaxPriorityFeePerGasTooLow lowP (maxPriorityFeePerGas gasPrice)), state)
       else (Inr (), state))"
    unfolding lowF_def lowP_def windowMinimum_def validateGasPrice_def
      getMinMaxFeePerGas_nonempty[OF assms(1)]
    by (simp add: getMinMaxPriorityFeePerGas_nonempty[OF assms(2)] Let_def)
  show ?thesis
    unfolding lowF_def[symmetric] lowP_def[symmetric] run by auto
qed

theorem validateGasPrice_accepts_iff_witness:
  "queueMaxFeePerGas (windowState [\<lparr>timestamp = 0, fee = 30\<rparr>, \<lparr>timestamp = 1000, fee = 20\<rparr>]
                                  [\<lparr>timestamp = 0, fee = 3\<rparr>, \<lparr>timestamp = 1000, fee = 2\<rparr>]) \<noteq> []
   \<and> queueMaxPriorityFeePerGas (windowState [\<lparr>timestamp = 0, fee = 30\<rparr>, \<lparr>timestamp = 1000, fee = 20\<rparr>]
                                  [\<lparr>timestamp = 0, fee = 3\<rparr>, \<lparr>timestamp = 1000, fee = 2\<rparr>]) \<noteq> []
   \<and> fst (validateGasPrice (exampleEnv 2000) (exampleConfig 1 100)
        (windowState [\<lparr>timestamp = 0, fee = 30\<rparr>, \<lparr>timestamp = 1000, fee = 20\<rparr>]
                     [\<lparr>timestamp = 0, fee = 3\<rparr>, \<lparr>timestamp = 1000, fee = 2\<rparr>])
        \<lparr>maxFeePerGas = 20, maxPriorityFeePerGas = 2\<rparr>) = Inr ()
   \<and> fst (validateGasPrice (exampleEnv 2000) (exampleConfig 1 100)
        (windowState [\<lparr>timestamp = 0, fee = 30\<rparr>, \<lparr>timestamp = 1000, fee = 20\<rparr>]
                     [\<lparr>timestamp = 0, fee = 3\<rparr>, \<lparr>timestamp = 1000, fee = 2\<rparr>])
        \<lparr>maxFeePerGas = 19, maxPriorityFeePerGas = 2\<rparr>) = Inl (MaxFeePerGasTooLow 20 19)"
proof -
  let ?s = "windowState [\<lparr>timestamp = 0, fee = 30\<rparr>, \<lparr>timestamp = 1000, fee = 20\<rparr>]
                     [\<lparr>timestamp = 0, fee = 3\<rparr>, \<lparr>timestamp = 1000, fee = 2\<rparr>]"
  let ?c = "exampleConfig 1 100"
  have h1: "queueMaxFeePerGas ?s \<noteq> []" and h2: "queueMaxPriorityFeePerGas ?s \<noteq> []"
    by (simp_all add: windowState_def)
  have mf: "windowMinimum ?c (queueMaxFeePerGas ?s) = 20"
    and mp: "windowMinimum ?c (queueMaxPriorityFeePerGas ?s) = 2"
    by (simp_all add: windowMinimum_def windowState_def example_defs)
  from validateGasPrice_accepts_iff[OF h1 h2, where env="exampleEnv 2000" and config="?c"
      and gasPrice="\<lparr>maxFeePerGas = 20, maxPriorityFeePerGas = 2\<rparr>"]
  have a: "fst (validateGasPrice (exampleEnv 2000) ?c ?s \<lparr>maxFeePerGas = 20, maxPriorityFeePerGas = 2\<rparr>) = Inr ()"
    unfolding mf mp by simp
  from validateGasPrice_accepts_iff[OF h1 h2, where env="exampleEnv 2000" and config="?c"
      and gasPrice="\<lparr>maxFeePerGas = 19, maxPriorityFeePerGas = 2\<rparr>"]
  have b: "fst (validateGasPrice (exampleEnv 2000) ?c ?s \<lparr>maxFeePerGas = 19, maxPriorityFeePerGas = 2\<rparr>) = Inl (MaxFeePerGasTooLow 20 19)"
    unfolding mf mp by simp
  show ?thesis using h1 h2 a b by blast
qed

subsection \<open>C8: the history queues\<close>

lemma saveMaxFeePerGas_rule:
  "queueMaxFeePerGas (saveMaxFeePerGas state arg) =
     historyInsert 1000 (maxQueueSize state) (queueMaxFeePerGas state) arg"
  "maxQueueSize (saveMaxFeePerGas state arg) = maxQueueSize state"
  by (auto simp: saveMaxFeePerGas_def historyInsert_def Let_def drop_Suc split: prod.splits)

lemma saveMaxPriorityFeePerGas_rule:
  "queueMaxPriorityFeePerGas (saveMaxPriorityFeePerGas state arg) =
     historyInsert 1000 (maxQueueSize state) (queueMaxPriorityFeePerGas state) arg"
  "maxQueueSize (saveMaxPriorityFeePerGas state arg) = maxQueueSize state"
  by (auto simp: saveMaxPriorityFeePerGas_def historyInsert_def Let_def drop_Suc split: prod.splits)

lemma saveBaseFeePerGas_rule:
  "queueBaseFeePerGas (saveBaseFeePerGas state arg) =
     historyInsert 1000 (maxQueueSize state) (queueBaseFeePerGas state) arg"
  "maxQueueSize (saveBaseFeePerGas state arg) = maxQueueSize state"
  by (auto simp: saveBaseFeePerGas_def historyInsert_def Let_def drop_Suc split: prod.splits)

lemma saveL1BaseFee_rule:
  "queueL1BaseFee (saveL1BaseFee m arg) =
     (if fst arg = 0 then queueL1BaseFee m
      else historyInsert queueValidity (arbitrumMaxQueueSize m) (queueL1BaseFee m) arg)"
  "arbitrumMaxQueueSize (saveL1BaseFee m arg) = arbitrumMaxQueueSize m"
  by (auto simp: saveL1BaseFee_def historyInsert_def Let_def drop_Suc split: prod.splits)

lemma saveL2BaseFee_rule:
  "queueL2BaseFee (saveL2BaseFee m arg) =
     (if fst arg = 0 then queueL2BaseFee m
      else historyInsert queueValidity (arbitrumMaxQueueSize m) (queueL2BaseFee m) arg)"
  "arbitrumMaxQueueSize (saveL2BaseFee m arg) = arbitrumMaxQueueSize m"
  by (auto simp: saveL2BaseFee_def historyInsert_def Let_def drop_Suc split: prod.splits)

lemma sorted_snoc_le:
  "sorted (map timestamp q) \<Longrightarrow> \<forall>e\<in>set q. timestamp e \<le> t
   \<Longrightarrow> sorted (map timestamp (q @ [\<lparr>timestamp = t, fee = v\<rparr>]))"
  by (simp add: sorted_append)

lemma historyInsert_windowOk:
  assumes ok: "windowOk capacity q" and cap: "1 \<le> capacity"
    and le: "\<forall>e\<in>set q. timestamp e \<le> snd arg"
  shows "windowOk capacity (historyInsert windowSlice capacity q arg)
       \<and> (\<forall>e\<in>set (historyInsert windowSlice capacity q arg). timestamp e \<le> snd arg)"
proof -
  have s: "sorted (map timestamp q)" and l: "int (length q) \<le> capacity"
    using ok by (simp_all add: windowOk_def)
  have s_tl: "sorted (map timestamp (tl q))"
    using s by (cases q) simp_all
  have s_bl: "sorted (map timestamp (butlast q))"
  proof (cases "q = []")
    case True
    then show ?thesis by simp
  next
    case False
    then have "q = butlast q @ [last q]" by simp
    then have "sorted (map timestamp (butlast q @ [last q]))" using s by simp
    then show ?thesis by (simp add: sorted_append)
  qed
  have le_tl: "\<forall>e\<in>set (tl q). timestamp e \<le> snd arg"
    using le by (cases q) simp_all
  have le_bl: "\<forall>e\<in>set (butlast q). timestamp e \<le> snd arg"
    using le by (auto dest: in_set_butlastD)
  have len_tl: "int (length (tl q @ [x])) \<le> capacity" if "q \<noteq> []" for x
    using l that by (cases q) simp_all
  have len_bl: "int (length (butlast q @ [x])) \<le> capacity" if "q \<noteq> []" for x
    using l that by simp
  show ?thesis
    using s l le cap s_tl s_bl le_tl le_bl len_tl len_bl
    by (auto simp: historyInsert_def windowOk_def sorted_append dest: in_set_butlastD)
qed

lemma save_frames:
  "queueMaxFeePerGas (saveBaseFeePerGas state arg) = queueMaxFeePerGas state"
  "queueMaxPriorityFeePerGas (saveBaseFeePerGas state arg) = queueMaxPriorityFeePerGas state"
  "queueBaseFeePerGas (saveMaxFeePerGas state arg) = queueBaseFeePerGas state"
  "queueMaxPriorityFeePerGas (saveMaxFeePerGas state arg) = queueMaxPriorityFeePerGas state"
  "queueBaseFeePerGas (saveMaxPriorityFeePerGas state arg) = queueBaseFeePerGas state"
  "queueMaxFeePerGas (saveMaxPriorityFeePerGas state arg) = queueMaxFeePerGas state"
  by (auto simp: saveBaseFeePerGas_def saveMaxFeePerGas_def saveMaxPriorityFeePerGas_def Let_def
      split: prod.splits)

lemma arbitrum_save_frames:
  "queueL2BaseFee (saveL1BaseFee m arg) = queueL2BaseFee m"
  "queueL1BaseFee (saveL2BaseFee m arg) = queueL1BaseFee m"
  by (auto simp: saveL1BaseFee_def saveL2BaseFee_def Let_def split: prod.splits)

lemma foldl_steps_windowOk:
  assumes step: "\<And>q a. f q a = q \<or> (\<exists>v. f q a = historyInsert windowSlice capacity q (v, time a))"
    and cap: "1 \<le> capacity"
  shows "sorted (map time saves) \<Longrightarrow>
     windowOk capacity (foldl f [] saves)
     \<and> (\<forall>e\<in>set (foldl f [] saves). \<forall>t. (\<forall>b\<in>set saves. time b \<le> t) \<longrightarrow> timestamp e \<le> t)"
proof (induction saves rule: rev_induct)
  case Nil
  then show ?case using cap by (simp add: windowOk_def)
next
  case (snoc a saves)
  let ?q = "foldl f [] saves"
  from snoc.prems have srt: "sorted (map time saves)"
    and last: "\<forall>b\<in>set saves. time b \<le> time a"
    by (auto simp: sorted_append)
  from snoc.IH[OF srt] have ok: "windowOk capacity ?q"
    and bound: "\<forall>e\<in>set ?q. \<forall>t. (\<forall>b\<in>set saves. time b \<le> t) \<longrightarrow> timestamp e \<le> t"
    by blast+
  from bound last have le: "\<forall>e\<in>set ?q. timestamp e \<le> time a" by blast
  from step[of ?q a] show ?case
  proof
    assume "f ?q a = ?q"
    then show ?thesis using ok bound by auto
  next
    assume "\<exists>v. f ?q a = historyInsert windowSlice capacity ?q (v, time a)"
    then obtain v where v: "f ?q a = historyInsert windowSlice capacity ?q (v, time a)" by blast
    from historyInsert_windowOk[OF ok cap, of "(v, time a)" windowSlice] le
    have "windowOk capacity (historyInsert windowSlice capacity ?q (v, time a))"
      "\<forall>e\<in>set (historyInsert windowSlice capacity ?q (v, time a)). timestamp e \<le> time a"
      by simp_all
    then show ?thesis using v by (auto intro: order_trans)
  qed
qed

lemma foldl_projection:
  assumes "\<And>s a. proj (step s a) = f (cap s) (proj s) a" and "\<And>s a. cap (step s a) = cap s"
  shows "proj (foldl step s saves) = foldl (f (cap s)) (proj s) saves
       \<and> cap (foldl step s saves) = cap s"
  using assms by (induction saves arbitrary: s) simp_all

lemmas queue_eval = saveBaseFeePerGas_def saveMaxFeePerGas_def saveMaxPriorityFeePerGas_def
  saveL1BaseFee_def saveL2BaseFee_def initialState_def createArbitrumManager_def
  queueValidity_def historyInsert_def windowOk_def

text \<open>
  \<^bold>\<open>C8\<close>, as stated, fails on the Arbitrum queues, where not every save a slice or
  more after the last entry appends: a base fee of zero is dropped before the queue is
  looked at. After a save of 5 at time 0, a save of 0 at time 20000 leaves the L1 queue as
  it is, where the insertion rule would append.
\<close>

theorem arbitrum_zero_save_counterexample:
  "queueL1BaseFee (foldl applyArbitrumSave (createArbitrumManager 3) [SaveL1BaseFee 5 0])
     = [\<lparr>timestamp = 0, fee = 5\<rparr>]
   \<and> queueL1BaseFee (foldl applyArbitrumSave (createArbitrumManager 3)
        [SaveL1BaseFee 5 0, SaveL1BaseFee 0 20000])
     = [\<lparr>timestamp = 0, fee = 5\<rparr>]
   \<and> historyInsert queueValidity 3 [\<lparr>timestamp = 0, fee = 5\<rparr>] (0, 20000)
     = [\<lparr>timestamp = 0, fee = 5\<rparr>, \<lparr>timestamp = 20000, fee = 0\<rparr>]"
  by (simp add: queue_eval Let_def)

text \<open>
  \<^bold>\<open>C8\<close>, as amended. Let \<open>maxQueueSize\<close> be at least 1 and the timestamps of a sequence
  of saves, into the three fee queues in any interleaving and likewise into the two
  Arbitrum queues, be non-decreasing. After the saves, each of the five queues (base fee, max fee,
  priority fee, Arbitrum L1 and L2) holds at most \<open>maxQueueSize\<close> entries with
  non-decreasing timestamps. Every save into a fee queue follows \<open>historyInsert\<close> with a
  slice of 1000 ms: less than a slice after the last entry it overwrites the last entry's
  value and timestamp when the new value is strictly lower and leaves the queue unchanged
  otherwise; on an empty queue or a slice or more later it appends, evicting the oldest
  entry at capacity. A save into an Arbitrum queue follows the same rule with a slice of
  15000 ms, except that a save of the value 0 leaves the queue unchanged.
\<close>

theorem fee_queues_follow_history_rule:
  assumes cap: "1 \<le> gasPriceExpiry config"
    and srt: "sorted (map feeSaveTime saves)"
    and arbitrum_srt: "sorted (map arbitrumSaveTime arbitrumSaves)"
  shows "windowOk (gasPriceExpiry config)
           (queueBaseFeePerGas (foldl applyFeeSave (initialState config) saves))
    \<and> windowOk (gasPriceExpiry config)
           (queueMaxFeePerGas (foldl applyFeeSave (initialState config) saves))
    \<and> windowOk (gasPriceExpiry config)
           (queueMaxPriorityFeePerGas (foldl applyFeeSave (initialState config) saves))
    \<and> windowOk (gasPriceExpiry config)
           (queueL1BaseFee (foldl applyArbitrumSave
              (createArbitrumManager (gasPriceExpiry config)) arbitrumSaves))
    \<and> windowOk (gasPriceExpiry config)
           (queueL2BaseFee (foldl applyArbitrumSave
              (createArbitrumManager (gasPriceExpiry config)) arbitrumSaves))
    \<and> queueBaseFeePerGas (saveBaseFeePerGas state arg) =
          historyInsert 1000 (maxQueueSize state) (queueBaseFeePerGas state) arg
    \<and> queueMaxFeePerGas (saveMaxFeePerGas state arg) =
          historyInsert 1000 (maxQueueSize state) (queueMaxFeePerGas state) arg
    \<and> queueMaxPriorityFeePerGas (saveMaxPriorityFeePerGas state arg) =
          historyInsert 1000 (maxQueueSize state) (queueMaxPriorityFeePerGas state) arg
    \<and> queueL1BaseFee (saveL1BaseFee m arg) =
          (if fst arg = 0 then queueL1BaseFee m
           else historyInsert 15000 (arbitrumMaxQueueSize m) (queueL1BaseFee m) arg)
    \<and> queueL2BaseFee (saveL2BaseFee m arg) =
          (if fst arg = 0 then queueL2BaseFee m
           else historyInsert 15000 (arbitrumMaxQueueSize m) (queueL2BaseFee m) arg)
    \<and> (queue \<noteq> [] \<and> snd arg - timestamp (last queue) < windowSlice
          \<and> fst arg < fee (last queue) \<longrightarrow>
        historyInsert windowSlice capacity queue arg =
          butlast queue @ [\<lparr>timestamp = snd arg, fee = fst arg\<rparr>])
    \<and> (queue \<noteq> [] \<and> snd arg - timestamp (last queue) < windowSlice
          \<and> fee (last queue) \<le> fst arg \<longrightarrow>
        historyInsert windowSlice capacity queue arg = queue)
    \<and> ((queue = [] \<or> windowSlice \<le> snd arg - timestamp (last queue))
          \<and> int (length queue) < capacity \<longrightarrow>
        historyInsert windowSlice capacity queue arg =
          queue @ [\<lparr>timestamp = snd arg, fee = fst arg\<rparr>])
    \<and> ((queue = [] \<or> windowSlice \<le> snd arg - timestamp (last queue))
          \<and> capacity \<le> int (length queue) \<longrightarrow>
        historyInsert windowSlice capacity queue arg =
          tl queue @ [\<lparr>timestamp = snd arg, fee = fst arg\<rparr>])"
proof -
  have overwrite: "historyInsert windowSlice capacity queue arg =
          butlast queue @ [\<lparr>timestamp = snd arg, fee = fst arg\<rparr>]"
    if "queue \<noteq> []" "snd arg - timestamp (last queue) < windowSlice"
      "fst arg < fee (last queue)"
    using that by (simp add: historyInsert_def)
  have discard: "historyInsert windowSlice capacity queue arg = queue"
    if "queue \<noteq> []" "snd arg - timestamp (last queue) < windowSlice"
      "fee (last queue) \<le> fst arg"
    using that by (simp add: historyInsert_def)
  have append: "historyInsert windowSlice capacity queue arg =
          queue @ [\<lparr>timestamp = snd arg, fee = fst arg\<rparr>]"
    if "queue = [] \<or> windowSlice \<le> snd arg - timestamp (last queue)"
      "int (length queue) < capacity"
    using that by (auto simp: historyInsert_def)
  have evict: "historyInsert windowSlice capacity queue arg =
          tl queue @ [\<lparr>timestamp = snd arg, fee = fst arg\<rparr>]"
    if "queue = [] \<or> windowSlice \<le> snd arg - timestamp (last queue)"
      "capacity \<le> int (length queue)"
    using that by (auto simp: historyInsert_def)
  let ?c = "gasPriceExpiry config"
  let ?s0 = "initialState config"
  let ?m0 = "createArbitrumManager ?c"
  let ?gb = "\<lambda>c q a. case a of SaveBaseFeePerGas v t \<Rightarrow> historyInsert 1000 c q (v, t) | _ \<Rightarrow> q"
  let ?gf = "\<lambda>c q a. case a of SaveMaxFeePerGas v t \<Rightarrow> historyInsert 1000 c q (v, t) | _ \<Rightarrow> q"
  let ?gp = "\<lambda>c q a. case a of SaveMaxPriorityFeePerGas v t \<Rightarrow> historyInsert 1000 c q (v, t)
                            | _ \<Rightarrow> q"
  let ?g1 = "\<lambda>c q a. case a of
               SaveL1BaseFee v t \<Rightarrow> if v = 0 then q else historyInsert queueValidity c q (v, t)
             | _ \<Rightarrow> q"
  let ?g2 = "\<lambda>c q a. case a of
               SaveL2BaseFee v t \<Rightarrow> if v = 0 then q else historyInsert queueValidity c q (v, t)
             | _ \<Rightarrow> q"
  have size: "maxQueueSize (applyFeeSave s a) = maxQueueSize s" for s a
    by (cases a)
       (simp_all add: saveBaseFeePerGas_rule saveMaxFeePerGas_rule saveMaxPriorityFeePerGas_rule)
  have arbitrum_size: "arbitrumMaxQueueSize (applyArbitrumSave s a) = arbitrumMaxQueueSize s"
    for s a
    by (cases a) (simp_all add: saveL1BaseFee_rule saveL2BaseFee_rule)
  have s0: "maxQueueSize ?s0 = ?c" "queueBaseFeePerGas ?s0 = []" "queueMaxFeePerGas ?s0 = []"
    "queueMaxPriorityFeePerGas ?s0 = []"
    by (simp_all add: initialState_def)
  have m0: "arbitrumMaxQueueSize ?m0 = ?c" "queueL1BaseFee ?m0 = []" "queueL2BaseFee ?m0 = []"
    by (simp_all add: createArbitrumManager_def)
  have b: "queueBaseFeePerGas (foldl applyFeeSave ?s0 saves) = foldl (?gb ?c) [] saves"
  proof -
    have "queueBaseFeePerGas (applyFeeSave s a) = ?gb (maxQueueSize s) (queueBaseFeePerGas s) a"
      for s a
      by (cases a) (simp_all add: saveBaseFeePerGas_rule save_frames)
    from foldl_projection[of queueBaseFeePerGas applyFeeSave ?gb maxQueueSize, OF this size, of ?s0 saves]
    have "queueBaseFeePerGas (foldl applyFeeSave ?s0 saves)
        = foldl (?gb (maxQueueSize ?s0)) (queueBaseFeePerGas ?s0) saves" by blast
    then show ?thesis unfolding s0 .
  qed
  have f: "queueMaxFeePerGas (foldl applyFeeSave ?s0 saves) = foldl (?gf ?c) [] saves"
  proof -
    have "queueMaxFeePerGas (applyFeeSave s a) = ?gf (maxQueueSize s) (queueMaxFeePerGas s) a"
      for s a
      by (cases a) (simp_all add: saveMaxFeePerGas_rule save_frames)
    from foldl_projection[of queueMaxFeePerGas applyFeeSave ?gf maxQueueSize, OF this size, of ?s0 saves]
    have "queueMaxFeePerGas (foldl applyFeeSave ?s0 saves)
        = foldl (?gf (maxQueueSize ?s0)) (queueMaxFeePerGas ?s0) saves" by blast
    then show ?thesis unfolding s0 .
  qed
  have p: "queueMaxPriorityFeePerGas (foldl applyFeeSave ?s0 saves) = foldl (?gp ?c) [] saves"
  proof -
    have "queueMaxPriorityFeePerGas (applyFeeSave s a)
        = ?gp (maxQueueSize s) (queueMaxPriorityFeePerGas s) a" for s a
      by (cases a) (simp_all add: saveMaxPriorityFeePerGas_rule save_frames)
    from foldl_projection[of queueMaxPriorityFeePerGas applyFeeSave ?gp maxQueueSize, OF this size, of ?s0 saves]
    have "queueMaxPriorityFeePerGas (foldl applyFeeSave ?s0 saves)
        = foldl (?gp (maxQueueSize ?s0)) (queueMaxPriorityFeePerGas ?s0) saves" by blast
    then show ?thesis unfolding s0 .
  qed
  have l1: "queueL1BaseFee (foldl applyArbitrumSave ?m0 arbitrumSaves)
      = foldl (?g1 ?c) [] arbitrumSaves"
  proof -
    have "queueL1BaseFee (applyArbitrumSave s a)
        = ?g1 (arbitrumMaxQueueSize s) (queueL1BaseFee s) a" for s a
      by (cases a) (simp_all add: saveL1BaseFee_rule arbitrum_save_frames)
    from foldl_projection[of queueL1BaseFee applyArbitrumSave ?g1 arbitrumMaxQueueSize, OF this arbitrum_size, of ?m0 arbitrumSaves]
    have "queueL1BaseFee (foldl applyArbitrumSave ?m0 arbitrumSaves)
        = foldl (?g1 (arbitrumMaxQueueSize ?m0)) (queueL1BaseFee ?m0) arbitrumSaves" by blast
    then show ?thesis unfolding m0 .
  qed
  have l2: "queueL2BaseFee (foldl applyArbitrumSave ?m0 arbitrumSaves)
      = foldl (?g2 ?c) [] arbitrumSaves"
  proof -
    have "queueL2BaseFee (applyArbitrumSave s a)
        = ?g2 (arbitrumMaxQueueSize s) (queueL2BaseFee s) a" for s a
      by (cases a) (simp_all add: saveL2BaseFee_rule arbitrum_save_frames)
    from foldl_projection[of queueL2BaseFee applyArbitrumSave ?g2 arbitrumMaxQueueSize, OF this arbitrum_size, of ?m0 arbitrumSaves]
    have "queueL2BaseFee (foldl applyArbitrumSave ?m0 arbitrumSaves)
        = foldl (?g2 (arbitrumMaxQueueSize ?m0)) (queueL2BaseFee ?m0) arbitrumSaves" by blast
    then show ?thesis unfolding m0 .
  qed
  have wb: "windowOk ?c (foldl (?gb ?c) [] saves)"
  proof -
    have "?gb ?c q a = q \<or> (\<exists>v. ?gb ?c q a = historyInsert 1000 ?c q (v, feeSaveTime a))"
      for q a by (cases a) auto
    from foldl_steps_windowOk[of "?gb ?c" 1000 ?c feeSaveTime, OF this cap srt]
    show ?thesis by blast
  qed
  have wf: "windowOk ?c (foldl (?gf ?c) [] saves)"
  proof -
    have "?gf ?c q a = q \<or> (\<exists>v. ?gf ?c q a = historyInsert 1000 ?c q (v, feeSaveTime a))"
      for q a by (cases a) auto
    from foldl_steps_windowOk[of "?gf ?c" 1000 ?c feeSaveTime, OF this cap srt]
    show ?thesis by blast
  qed
  have wp: "windowOk ?c (foldl (?gp ?c) [] saves)"
  proof -
    have "?gp ?c q a = q \<or> (\<exists>v. ?gp ?c q a = historyInsert 1000 ?c q (v, feeSaveTime a))"
      for q a by (cases a) auto
    from foldl_steps_windowOk[of "?gp ?c" 1000 ?c feeSaveTime, OF this cap srt]
    show ?thesis by blast
  qed
  have w1: "windowOk ?c (foldl (?g1 ?c) [] arbitrumSaves)"
  proof -
    have "?g1 ?c q a = q
        \<or> (\<exists>v. ?g1 ?c q a = historyInsert queueValidity ?c q (v, arbitrumSaveTime a))"
      for q a by (cases a) auto
    from foldl_steps_windowOk[of "?g1 ?c" queueValidity ?c arbitrumSaveTime,
        OF this cap arbitrum_srt]
    show ?thesis by blast
  qed
  have w2: "windowOk ?c (foldl (?g2 ?c) [] arbitrumSaves)"
  proof -
    have "?g2 ?c q a = q
        \<or> (\<exists>v. ?g2 ?c q a = historyInsert queueValidity ?c q (v, arbitrumSaveTime a))"
      for q a by (cases a) auto
    from foldl_steps_windowOk[of "?g2 ?c" queueValidity ?c arbitrumSaveTime,
        OF this cap arbitrum_srt]
    show ?thesis by blast
  qed
  have rules: "queueBaseFeePerGas (saveBaseFeePerGas state arg) =
          historyInsert 1000 (maxQueueSize state) (queueBaseFeePerGas state) arg"
    "queueMaxFeePerGas (saveMaxFeePerGas state arg) =
          historyInsert 1000 (maxQueueSize state) (queueMaxFeePerGas state) arg"
    "queueMaxPriorityFeePerGas (saveMaxPriorityFeePerGas state arg) =
          historyInsert 1000 (maxQueueSize state) (queueMaxPriorityFeePerGas state) arg"
    "queueL1BaseFee (saveL1BaseFee m arg) =
          (if fst arg = 0 then queueL1BaseFee m
           else historyInsert 15000 (arbitrumMaxQueueSize m) (queueL1BaseFee m) arg)"
    "queueL2BaseFee (saveL2BaseFee m arg) =
          (if fst arg = 0 then queueL2BaseFee m
           else historyInsert 15000 (arbitrumMaxQueueSize m) (queueL2BaseFee m) arg)"
    by (simp_all only: saveBaseFeePerGas_rule saveMaxFeePerGas_rule saveMaxPriorityFeePerGas_rule
        saveL1BaseFee_rule saveL2BaseFee_rule queueValidity_def)
  show ?thesis
    unfolding b f p l1 l2
    using wb wf wp w1 w2 rules overwrite discard append evict by blast
qed

theorem fee_queues_follow_history_rule_witness:
  "1 \<le> gasPriceExpiry (exampleConfig 1 100)
   \<and> sorted (map feeSaveTime [SaveMaxFeePerGas 10 0, SaveBaseFeePerGas 7 100,
        SaveMaxFeePerGas 8 500, SaveMaxFeePerGas 9 1500])
   \<and> sorted (map arbitrumSaveTime [SaveL1BaseFee 5 0, SaveL1BaseFee 0 20000])
   \<and> queueMaxFeePerGas (foldl applyFeeSave (initialState (exampleConfig 1 100))
        [SaveMaxFeePerGas 10 0, SaveBaseFeePerGas 7 100,
         SaveMaxFeePerGas 8 500, SaveMaxFeePerGas 9 1500])
      = [\<lparr>timestamp = 500, fee = 8\<rparr>, \<lparr>timestamp = 1500, fee = 9\<rparr>]
   \<and> windowOk (gasPriceExpiry (exampleConfig 1 100))
        [\<lparr>timestamp = 500, fee = 8\<rparr>, \<lparr>timestamp = 1500, fee = 9\<rparr>]"
proof -
  let ?saves = "[SaveMaxFeePerGas 10 0, SaveBaseFeePerGas 7 100,
         SaveMaxFeePerGas 8 500, SaveMaxFeePerGas 9 1500]"
  have h1: "1 \<le> gasPriceExpiry (exampleConfig 1 100)"
    by (simp add: exampleConfig_def)
  have h2: "sorted (map feeSaveTime ?saves)" by simp
  have h3: "sorted (map arbitrumSaveTime [SaveL1BaseFee 5 0, SaveL1BaseFee 0 20000])" by simp
  have q: "queueMaxFeePerGas (foldl applyFeeSave (initialState (exampleConfig 1 100)) ?saves)
      = [\<lparr>timestamp = 500, fee = 8\<rparr>, \<lparr>timestamp = 1500, fee = 9\<rparr>]"
    by (simp add: queue_eval exampleConfig_def Let_def)
  from fee_queues_follow_history_rule[OF h1 h2 h3]
  have "windowOk (gasPriceExpiry (exampleConfig 1 100))
      (queueMaxFeePerGas (foldl applyFeeSave (initialState (exampleConfig 1 100)) ?saves))"
    by blast
  then show ?thesis unfolding q using h1 h2 h3 q by blast
qed

subsection \<open>C10: estimating without an EIP-1559 estimate\<close>





section \<open>Properties of the local sender manager\<close>

lemmas sender_defs = getAvailableWallets_def createLocalSenderManager_def getWallet_def
  pushWallet_def drainedPool_def walletConfig_def slice0_def

lemma getWallets_all_free:
  "availableWallets m = ws \<Longrightarrow> semaphore m = int (length ws) \<Longrightarrow>
   getWallets (length ws) m = (map Resolved ws, m\<lparr>availableWallets := [], semaphore := 0\<rparr>)"
proof (induction ws arbitrary: m)
  case Nil
  then show ?case by simp
next
  case (Cons w ws)
  let ?m1 = "m\<lparr>semaphore := semaphore m - 1, availableWallets := ws\<rparr>"
  have step: "getWallet m = (Resolved w, ?m1)"
    using Cons.prems by (simp add: getWallet_def Let_def)
  have "getWallets (length ws) ?m1 = (map Resolved ws, ?m1\<lparr>availableWallets := [], semaphore := 0\<rparr>)"
    using Cons.prems by (intro Cons.IH) simp_all
  then show ?case using step by simp
qed

lemma drainedPool_empty:
  "drainedPool config = (createLocalSenderManager config)\<lparr>availableWallets := [], semaphore := 0\<rparr>"
  "fst (getWallets (length (getAvailableWallets config)) (createLocalSenderManager config)) =
     map Resolved (getAvailableWallets config)"
  using getWallets_all_free[of "createLocalSenderManager config" "getAvailableWallets config"]
  by (simp_all add: drainedPool_def createLocalSenderManager_def)

lemma push_push_get:
  assumes "availableWallets m = []" and "0 \<le> semaphore m"
  shows "fst (getWallet (pushWallet w2 (pushWallet w1 m))) = Resolved w1"
  using assms by (simp add: getWallet_def pushWallet_def Let_def)

subsection \<open>C9: the order in which wallets are handed out\<close>

text \<open>
  \<^bold>\<open>C9\<close>, as stated, fails. The pool is not a stack: \<open>getWallet\<close> takes the head of the
  array (\<open>shift\<close>) and \<open>pushWallet\<close> appends at its end. With two wallets, after both were
  handed out and then pushed back as \<open>0xW1\<close>, \<open>0xW2\<close>, the next call resolves to \<open>0xW1\<close>.
\<close>

theorem local_sender_manager_lifo_counterexample:
  "availableWallets (drainedPool (walletConfig [''0xW1'', ''0xW2''])) = []
   \<and> fst (getWallet (pushWallet ''0xW2'' (pushWallet ''0xW1''
        (drainedPool (walletConfig [''0xW1'', ''0xW2''])))))
     = Resolved ''0xW1''
   \<and> fst (getWallet (pushWallet ''0xW2'' (pushWallet ''0xW1''
        (drainedPool (walletConfig [''0xW1'', ''0xW2''])))))
     \<noteq> Resolved ''0xW2''"
  by (simp add: sender_defs example_defs Let_def)

text \<open>
  \<^bold>\<open>C9\<close>, as amended. The local sender manager hands out wallets in FIFO order. Draining
  the pool hands out the configured wallets in their order and leaves no free wallet and
  no permit; if then \<open>w1\<close> and after it \<open>w2\<close> are pushed, the next \<open>getWallet\<close> resolves to
  \<open>w1\<close>, the wallet pushed first. The same holds from any state with no free wallet.
\<close>

theorem local_sender_manager_is_fifo:
  "availableWallets (drainedPool config) = [] \<and> semaphore (drainedPool config) = 0
   \<and> fst (getWallets (length (getAvailableWallets config)) (createLocalSenderManager config))
       = map Resolved (getAvailableWallets config)
   \<and> fst (getWallet (pushWallet w2 (pushWallet w1 (drainedPool config)))) = Resolved w1
   \<and> (availableWallets m = [] \<and> 0 \<le> semaphore m \<longrightarrow>
        fst (getWallet (pushWallet w2 (pushWallet w1 m))) = Resolved w1)"
proof -
  have d: "availableWallets (drainedPool config) = []" "semaphore (drainedPool config) = 0"
    by (simp_all add: drainedPool_empty(1))
  then have "fst (getWallet (pushWallet w2 (pushWallet w1 (drainedPool config)))) = Resolved w1"
    by (intro push_push_get) simp_all
  then show ?thesis using d drainedPool_empty(2) push_push_get by blast
qed

theorem local_sender_manager_is_fifo_witness:
  "availableWallets (drainedPool (walletConfig [''0xW1'', ''0xW2'', ''0xW3''])) = []
   \<and> 0 \<le> semaphore (drainedPool (walletConfig [''0xW1'', ''0xW2'', ''0xW3'']))
   \<and> fst (getWallet (pushWallet ''0xW2'' (pushWallet ''0xW3''
        (drainedPool (walletConfig [''0xW1'', ''0xW2'', ''0xW3''])))))
     = Resolved ''0xW3''"
proof -
  let ?m = "drainedPool (walletConfig [''0xW1'', ''0xW2'', ''0xW3''])"
  have h: "availableWallets ?m = []" "0 \<le> semaphore ?m"
    by (simp_all add: sender_defs example_defs Let_def)
  from local_sender_manager_is_fifo[of "walletConfig [''0xW1'', ''0xW2'', ''0xW3'']" "''0xW2''" "''0xW3''" ?m] h
  show ?thesis by blast
qed

end
